theory Spec2Isabelle
  imports Main "HOL-Library.Finite_Map"
begin

section \<open>Common types\<close>

text \<open>
  \<open>frame_id_t\<close> and \<open>page_id_t\<close> are signed 32-bit integers in the source (the code
  casts a frame id with \<open>static_cast<size_t>\<close> and fills the free list with
  \<open>static_cast<int>(i)\<close>); they are modelled as \<open>int\<close>, and the one place where the
  representation matters, the cast to \<open>size_t\<close> in \<open>RecordAccess\<close>, is written out.
  Member names lose the trailing underscore of the source (\<open>st_\<close> is \<open>st\<close>).
  Every \<open>throw ExecutionException(...)\<close> of the source is a constructor of \<open>error\<close>.
\<close>

type_synonym frame_id_t = int
type_synonym page_id_t = int

datatype error =
    HistoryEmpty        \<comment> \<open>"[LRUKNode] history size is empty!"\<close>
  | InvalidFrameId      \<comment> \<open>"[replacer] frame id larger than replacer size"\<close>
  | NoFrameNewPage      \<comment> \<open>"[BufferPoolManager::NewPage] impossible, must have free frame !"\<close>
  | NoFrameFetchPage    \<comment> \<open>"[BufferPoolManager::FetchPage] impossible, must have free frame !"\<close>
  | LatchNotHeld        \<comment> \<open>releasing a latch that is not held (undefined in the source)\<close>

text \<open>
  Modelled from the spec: \<open>INVALID_PAGE_ID\<close> (common/config.h, not among the sources)
  is the sentinel that "denotes no page"; page ids are non-negative, and the sentinel
  is \<open>-1\<close>.
\<close>

definition INVALID_PAGE_ID :: page_id_t where
  "INVALID_PAGE_ID = - 1"

text \<open>\<open>static_cast<size_t>(frame_id)\<close> on a 64-bit target.\<close>

definition size_t_cast :: "int \<Rightarrow> nat" where
  "size_t_cast i = nat (i mod 2 ^ 64)"

section \<open>LRU-K replacer (src/buffer/lru\_k\_replacer.cpp)\<close>

subsection \<open>LRUKNode\<close>

record LRUKNode =
  history :: "nat list"
  node_k :: nat
  fid :: frame_id_t
  is_evictable :: bool

text \<open>
  Modelled from the spec: the constructor \<open>LRUKNode(frame_id, k)\<close> is declared in
  buffer/lru\_k\_replacer.h, which is not among the sources. A new record has an empty
  history and is not evictable (the spec's scenarios access a frame first and mark it
  evictable afterwards).
\<close>

definition LRUKNode_new :: "frame_id_t \<Rightarrow> nat \<Rightarrow> LRUKNode" where
  "LRUKNode_new frame_id k =
     \<lparr> history = [], node_k = k, fid = frame_id, is_evictable = False \<rparr>"

definition INF_DISTANCE :: nat where
  "INF_DISTANCE = 2 ^ 64 - 1"

text \<open>The process-global counter \<open>time_base_line\<close> is a \<open>size_t\<close>: \<open>++\<close> wraps.\<close>

definition CurrentTimestamp :: "nat \<Rightarrow> nat" where
  "CurrentTimestamp time_base_line = (time_base_line + 1) mod 2 ^ 64"

definition GetDistance :: "LRUKNode \<Rightarrow> nat" where
  "GetDistance n = (if length (history n) < node_k n then INF_DISTANCE else 0)"

definition FirstTime :: "LRUKNode \<Rightarrow> error + nat" where
  "FirstTime n = (if history n = [] then Inl HistoryEmpty else Inr (hd (history n)))"

text \<open>\<open>Add\<close> takes the timestamp that \<open>CurrentTimestamp()\<close> has just returned.\<close>

definition Add :: "LRUKNode \<Rightarrow> nat \<Rightarrow> LRUKNode" where
  "Add n timestamp =
     (let h = history n @ [timestamp]
      in n\<lparr> history := (if length h > node_k n then tl h else h) \<rparr>)"

definition SetEvictable_node :: "LRUKNode \<Rightarrow> bool \<Rightarrow> LRUKNode" where
  "SetEvictable_node n b = n\<lparr> is_evictable := b \<rparr>"

definition GetEvictable :: "LRUKNode \<Rightarrow> bool" where
  "GetEvictable n = is_evictable n"

subsection \<open>The ordered index \<open>st_\<close>\<close>

text \<open>
  \<open>st_\<close> is an ordered set of tuples \<open>(distance, first timestamp, frame id)\<close>. It is
  modelled as the list of its elements in iteration order, so that \<open>--st_.end()\<close> is
  \<open>last\<close>.
\<close>

type_synonym index_key = "nat \<times> nat \<times> frame_id_t"

text \<open>
  Modelled from the spec: the declaration of \<open>st_\<close>, and with it the comparison that
  orders the index, is in buffer/lru\_k\_replacer.h, which is not among the sources.
  The spec: "The index sorts so that evict returns the frame with the greatest
  distance (infinity > any finite value) and, ties broken by earliest
  first\_timestamp", the key being \<open>(distance, earliest_timestamp, frame_id)\<close>.
  So a key is later in the order when its distance is greater, then when its first
  timestamp is smaller, then (so that keys of different frames are never equivalent)
  when its frame id is greater.
\<close>

fun index_less :: "index_key \<Rightarrow> index_key \<Rightarrow> bool" where
  "index_less (d1, t1, f1) (d2, t2, f2) =
     (d1 < d2 \<or> (d1 = d2 \<and> (t2 < t1 \<or> (t1 = t2 \<and> f1 < f2))))"

text \<open>\<open>std::set::insert\<close>/\<open>emplace\<close>: no effect when an equivalent key is present.\<close>

fun set_insert :: "index_key \<Rightarrow> index_key list \<Rightarrow> index_key list" where
  "set_insert x [] = [x]"
| "set_insert x (y # ys) =
     (if index_less x y then x # y # ys
      else if index_less y x then y # set_insert x ys
      else y # ys)"

text \<open>\<open>std::set::erase(key)\<close>: removes the elements equivalent to the key.\<close>

definition set_erase :: "index_key \<Rightarrow> index_key list \<Rightarrow> index_key list" where
  "set_erase x ys = filter (\<lambda>y. index_less x y \<or> index_less y x) ys"

subsection \<open>LRUKReplacer\<close>

text \<open>
  The state of a replacer, together with the global \<open>time_base_line\<close> that its nodes
  advance.
\<close>

record LRUKReplacer =
  node_store :: "frame_id_t \<rightharpoonup> LRUKNode"
  st :: "index_key list"
  replacer_size :: nat
  replacer_k :: nat
  time_base_line :: nat

definition LRUKReplacer_new :: "nat \<Rightarrow> nat \<Rightarrow> nat \<Rightarrow> LRUKReplacer" where
  "LRUKReplacer_new num_frames k t0 =
     \<lparr> node_store = Map.empty, st = [], replacer_size = num_frames, replacer_k = k,
       time_base_line = t0 \<rparr>"

definition Evict :: "LRUKReplacer \<Rightarrow> frame_id_t option \<times> LRUKReplacer" where
  "Evict r =
     (if st r \<noteq> [] then
        (case last (st r) of
           (var1, var2, the_frame_id) \<Rightarrow>
             (Some the_frame_id,
              r\<lparr> st := butlast (st r),
                 node_store := (node_store r)(the_frame_id := None) \<rparr>))
      else (None, r))"

definition RecordAccess :: "LRUKReplacer \<Rightarrow> frame_id_t \<Rightarrow> error + LRUKReplacer" where
  "RecordAccess r frame_id =
     (if size_t_cast frame_id > replacer_size r then Inl InvalidFrameId
      else
        (case
           (case node_store r frame_id of
              None \<Rightarrow> Inr (LRUKNode_new frame_id (replacer_k r), r)
            | Some n \<Rightarrow>
                (case FirstTime n of
                   Inl e \<Rightarrow> Inl e
                 | Inr ft \<Rightarrow>
                     Inr (n, r\<lparr> st := set_erase (GetDistance n, ft, frame_id) (st r) \<rparr>)))
         of
           Inl e \<Rightarrow> Inl e
         | Inr (n, r1) \<Rightarrow>
             (let timestamp = CurrentTimestamp (time_base_line r1);
                  n' = Add n timestamp;
                  r2 = r1\<lparr> node_store := (node_store r1)(frame_id \<mapsto> n'),
                           time_base_line := timestamp \<rparr>
              in if GetEvictable n' then
                   (case FirstTime n' of
                      Inl e \<Rightarrow> Inl e
                    | Inr ft \<Rightarrow>
                        Inr (r2\<lparr> st := set_insert (GetDistance n', ft, frame_id) (st r2) \<rparr>))
                 else Inr r2)))"

definition SetEvictable :: "LRUKReplacer \<Rightarrow> frame_id_t \<Rightarrow> bool \<Rightarrow> error + LRUKReplacer" where
  "SetEvictable r frame_id set_evictable =
     (case node_store r frame_id of
        None \<Rightarrow> Inr r
      | Some n \<Rightarrow>
          if GetEvictable n = set_evictable then Inr r
          else
            (case FirstTime n of
               Inl e \<Rightarrow> Inl e
             | Inr ft \<Rightarrow>
                 (let tp = (GetDistance n, ft, frame_id);
                      r1 = r\<lparr> node_store :=
                                (node_store r)(frame_id \<mapsto> SetEvictable_node n set_evictable) \<rparr>
                  in if set_evictable then Inr (r1\<lparr> st := set_insert tp (st r1) \<rparr>)
                     else Inr (r1\<lparr> st := set_erase tp (st r1) \<rparr>))))"

definition Remove :: "LRUKReplacer \<Rightarrow> frame_id_t \<Rightarrow> error + LRUKReplacer" where
  "Remove r frame_id =
     (case node_store r frame_id of
        None \<Rightarrow> Inr r
      | Some n \<Rightarrow>
          if GetEvictable n then
            (case FirstTime n of
               Inl e \<Rightarrow> Inl e
             | Inr ft \<Rightarrow>
                 Inr (r\<lparr> st := set_erase (GetDistance n, ft, frame_id) (st r),
                         node_store := (node_store r)(frame_id := None) \<rparr>))
          else Inr r)"

definition Size :: "LRUKReplacer \<Rightarrow> nat" where
  "Size r = length (st r)"

section \<open>Buffer pool manager (src/buffer/buffer\_pool\_manager.cpp)\<close>

subsection \<open>Frames\<close>

text \<open>
  Modelled from the spec: class \<open>Page\<close> (storage/page/page.h) is not among the sources.
  The spec: a frame is a "fixed-size byte array" plus \<open>page_id\<close>, \<open>pin_count\<close>,
  \<open>dirty\<close> and "a reader/writer latch: multiple readers or one writer". The latch is
  the number of readers holding it and whether a writer holds it. The page size is the
  length of \<open>data\<close>; \<open>ResetMemory\<close> zeroes the buffer. Releasing a latch that is
  not held is undefined in the source and is the error \<open>LatchNotHeld\<close> here.
\<close>

record Page =
  data :: "nat list"
  page_id :: page_id_t
  pin_count :: int
  is_dirty :: bool
  readers :: nat
  writer :: bool

text \<open>
  Modelled from the spec: \<open>Page::ResetMemory\<close> (storage/page/page.h, not among the
  sources) zeroes the frame's bytes ("resets the frame's memory").
\<close>

definition ResetMemory :: "Page \<Rightarrow> Page" where
  "ResetMemory p = p\<lparr> data := replicate (length (data p)) 0 \<rparr>"

text \<open>
  Modelled from the spec: \<open>Page::RUnlatch\<close> (storage/page/page.h, not among the
  sources) releases the reader latch, of which there may be several holders.
\<close>

definition RUnlatch :: "Page \<Rightarrow> error + Page" where
  "RUnlatch p = (if readers p = 0 then Inl LatchNotHeld else Inr (p\<lparr> readers := readers p - 1 \<rparr>))"

text \<open>
  Modelled from the spec: \<open>Page::WUnlatch\<close> (storage/page/page.h, not among the
  sources) releases the writer latch, which has one holder.
\<close>

definition WUnlatch :: "Page \<Rightarrow> error + Page" where
  "WUnlatch p = (if \<not> writer p then Inl LatchNotHeld else Inr (p\<lparr> writer := False \<rparr>))"

text \<open>
  Modelled from the spec: the constructor of \<open>Page\<close> (storage/page/page.h, not among
  the sources). A frame starts empty: zeroed bytes, page id \<open>INVALID\<close>, pin count 0,
  clean, latch free.
\<close>

definition Page_new :: "nat \<Rightarrow> Page" where
  "Page_new page_size =
     \<lparr> data = replicate page_size 0, page_id = INVALID_PAGE_ID, pin_count = 0,
       is_dirty = False, readers = 0, writer = False \<rparr>"

subsection \<open>Disk manager\<close>

text \<open>
  Modelled from the spec: the disk manager is an external collaborator with
  "read\_page(page\_id, buffer): fills a page-sized buffer" and "write\_page(page\_id,
  buffer): persists the buffer". The model keeps the persisted bytes of every page and
  the sequence of writes received.
\<close>

record DiskManager =
  disk_pages :: "page_id_t \<Rightarrow> nat list"
  write_log :: "(page_id_t \<times> nat list) list"

text \<open>
  Modelled from the spec: \<open>DiskManager::WritePage\<close> (not among the sources), "persists
  the buffer".
\<close>

definition WritePage :: "DiskManager \<Rightarrow> page_id_t \<Rightarrow> nat list \<Rightarrow> DiskManager" where
  "WritePage d pid bytes =
     d\<lparr> disk_pages := (disk_pages d)(pid := bytes), write_log := write_log d @ [(pid, bytes)] \<rparr>"

text \<open>
  Modelled from the spec: \<open>DiskManager::ReadPage\<close> (not among the sources), "fills a
  page-sized buffer" with the persisted bytes of the page.
\<close>

definition ReadPage :: "DiskManager \<Rightarrow> page_id_t \<Rightarrow> nat list" where
  "ReadPage d pid = disk_pages d pid"

subsection \<open>The manager\<close>

text \<open>
  \<open>pages_\<close> is the array of frames, indexed by frame id. The manager only indexes it
  with frame ids taken from the free list, the page table and the replacer, which
  the invariant \<open>bpm_inv\<close> below keeps within the bounds of the array;
  \<open>page_table_\<close> is a finite map, whose \<open>size()\<close> is the number of its keys.
\<close>

record BufferPoolManager =
  pool_size :: nat
  pages :: "frame_id_t \<Rightarrow> Page"
  page_table :: "(page_id_t, frame_id_t) fmap"
  free_list :: "frame_id_t list"
  replacer :: LRUKReplacer
  disk_manager :: DiskManager
  next_page_id :: page_id_t

text \<open>
  The constructor. The page size (\<open>BUSTUB_PAGE_SIZE\<close>) and the value of the global
  \<open>time_base_line\<close> at the time of the call are parameters; \<open>next_page_id_\<close> starts
  at 0.
\<close>

definition BufferPoolManager_new ::
    "nat \<Rightarrow> DiskManager \<Rightarrow> nat \<Rightarrow> nat \<Rightarrow> nat \<Rightarrow> BufferPoolManager" where
  "BufferPoolManager_new num_frames disk k page_size t0 =
     \<lparr> pool_size = num_frames, pages = (\<lambda>_. Page_new page_size), page_table = fmempty,
       free_list = map int [0..<num_frames], replacer = LRUKReplacer_new num_frames k t0,
       disk_manager = disk, next_page_id = 0 \<rparr>"

text \<open>
  \<open>next_page_id_++\<close>. The member is declared in the header, which is not among the
  sources; it is taken to be an atomic 32-bit page id, as \<open>page_id_t\<close> is, so that the
  increment wraps.
\<close>

definition int32_wrap :: "int \<Rightarrow> int" where
  "int32_wrap x = (x + 2 ^ 31) mod 2 ^ 32 - 2 ^ 31"

definition AllocatePage :: "BufferPoolManager \<Rightarrow> page_id_t \<times> BufferPoolManager" where
  "AllocatePage s = (next_page_id s, s\<lparr> next_page_id := int32_wrap (next_page_id s + 1) \<rparr>)"

definition FlushPage :: "BufferPoolManager \<Rightarrow> page_id_t \<Rightarrow> bool \<times> BufferPoolManager" where
  "FlushPage s pid =
     (case fmlookup (page_table s) pid of
        None \<Rightarrow> (False, s)
      | Some f \<Rightarrow>
          (True,
           s\<lparr> disk_manager := WritePage (disk_manager s) pid (data (pages s f)),
              pages := (pages s)(f := (pages s f)\<lparr> is_dirty := False \<rparr>) \<rparr>))"

text \<open>
  The block by which \<open>NewPage\<close> (lines 53--69) and \<open>FetchPage\<close> (lines 93--109) find a
  frame is the same in both, statement for statement, except for the message of the
  exception, which is the parameter \<open>err\<close>.
\<close>

definition take_frame :: "error \<Rightarrow> BufferPoolManager \<Rightarrow> error + (frame_id_t \<times> BufferPoolManager)" where
  "take_frame err s =
     (if free_list s \<noteq> [] then
        Inr (hd (free_list s), s\<lparr> free_list := tl (free_list s) \<rparr>)
      else
        (case Evict (replacer s) of
           (None, r) \<Rightarrow> Inl err
         | (Some frame_id, r) \<Rightarrow>
             (let s1 = s\<lparr> replacer := r \<rparr>;
                  s2 = (if is_dirty (pages s1 frame_id)
                        then snd (FlushPage s1 (page_id (pages s1 frame_id))) else s1);
                  s3 = s2\<lparr> page_table := fmdrop (page_id (pages s2 frame_id)) (page_table s2) \<rparr>;
                  s4 = s3\<lparr> pages := (pages s3)(frame_id :=
                             (ResetMemory (pages s3 frame_id))
                               \<lparr> page_id := INVALID_PAGE_ID, pin_count := 0, is_dirty := False \<rparr>) \<rparr>
              in Inr (frame_id, s4))))"

text \<open>
  \<open>NewPage\<close> returns the new page id (the out-parameter) and the frame whose address
  is returned, or \<open>None\<close> for \<open>nullptr\<close>.
\<close>

definition NewPage ::
    "BufferPoolManager \<Rightarrow> error + ((page_id_t \<times> frame_id_t) option \<times> BufferPoolManager)" where
  "NewPage s =
     (if fcard (fmdom (page_table s)) = pool_size s \<and> Size (replacer s) = 0 then Inr (None, s)
      else
        (case take_frame NoFrameNewPage s of
           Inl e \<Rightarrow> Inl e
         | Inr (frame_id, s1) \<Rightarrow>
             (case AllocatePage s1 of
                (aloc_page_id, s2) \<Rightarrow>
                  (let s3 = s2\<lparr> page_table := fmupd aloc_page_id frame_id (page_table s2) \<rparr>;
                       s4 = s3\<lparr> pages := (pages s3)(frame_id :=
                                  (pages s3 frame_id)\<lparr> page_id := aloc_page_id, pin_count := 1 \<rparr>) \<rparr>
                   in (case RecordAccess (replacer s4) frame_id of
                         Inl e \<Rightarrow> Inl e
                       | Inr r1 \<Rightarrow>
                           (case SetEvictable r1 frame_id False of
                              Inl e \<Rightarrow> Inl e
                            | Inr r2 \<Rightarrow>
                                Inr (Some (aloc_page_id, frame_id), s4\<lparr> replacer := r2 \<rparr>)))))))"

text \<open>\<open>FetchPage\<close> returns the frame whose address is returned, or \<open>None\<close>.\<close>

definition FetchPage ::
    "BufferPoolManager \<Rightarrow> page_id_t \<Rightarrow> error + (frame_id_t option \<times> BufferPoolManager)" where
  "FetchPage s pid =
     (case fmlookup (page_table s) pid of
        Some f \<Rightarrow>
          (let s1 = s\<lparr> pages := (pages s)(f := (pages s f)\<lparr> pin_count := pin_count (pages s f) + 1 \<rparr>) \<rparr>
           in (case SetEvictable (replacer s1) f False of
                 Inl e \<Rightarrow> Inl e
               | Inr r \<Rightarrow> Inr (Some f, s1\<lparr> replacer := r \<rparr>)))
      | None \<Rightarrow>
          if (fcard (fmdom (page_table s)) = pool_size s \<and> Size (replacer s) = 0) \<or> pid < 0
          then Inr (None, s)
          else
            (case take_frame NoFrameFetchPage s of
               Inl e \<Rightarrow> Inl e
             | Inr (frame_id, s1) \<Rightarrow>
                 (let s2 = s1\<lparr> pages := (pages s1)(frame_id :=
                              (pages s1 frame_id)\<lparr> data := ReadPage (disk_manager s1) pid \<rparr>) \<rparr>;
                      s3 = s2\<lparr> page_table := fmupd pid frame_id (page_table s2) \<rparr>;
                      s4 = s3\<lparr> pages := (pages s3)(frame_id :=
                              (pages s3 frame_id)\<lparr> page_id := pid, pin_count := 1 \<rparr>) \<rparr>
                  in (case RecordAccess (replacer s4) frame_id of
                        Inl e \<Rightarrow> Inl e
                      | Inr r1 \<Rightarrow>
                          (case SetEvictable r1 frame_id False of
                             Inl e \<Rightarrow> Inl e
                           | Inr r2 \<Rightarrow> Inr (Some frame_id, s4\<lparr> replacer := r2 \<rparr>))))))"

definition UnpinPage ::
    "BufferPoolManager \<Rightarrow> page_id_t \<Rightarrow> bool \<Rightarrow> error + (bool \<times> BufferPoolManager)" where
  "UnpinPage s pid dirty =
     (case fmlookup (page_table s) pid of
        None \<Rightarrow> Inr (False, s)
      | Some f \<Rightarrow>
          if pin_count (pages s f) \<le> 0 then Inr (False, s)
          else
            (let s1 = s\<lparr> pages := (pages s)(f := (pages s f)\<lparr> pin_count := pin_count (pages s f) - 1 \<rparr>) \<rparr>
             in (case (if pin_count (pages s1 f) = 0
                       then (case SetEvictable (replacer s1) f True of
                               Inl e \<Rightarrow> Inl e
                             | Inr r \<Rightarrow> Inr (s1\<lparr> replacer := r \<rparr>))
                       else Inr s1)
                 of
                   Inl e \<Rightarrow> Inl e
                 | Inr s2 \<Rightarrow>
                     Inr (True,
                          s2\<lparr> pages := (pages s2)(f :=
                                (pages s2 f)\<lparr> is_dirty := (is_dirty (pages s2 f) \<or> dirty) \<rparr>) \<rparr>))))"

text \<open>\<open>DeallocatePage\<close> (declared in the header) is the no-op hook of the spec.\<close>

definition DeletePage :: "BufferPoolManager \<Rightarrow> page_id_t \<Rightarrow> error + (bool \<times> BufferPoolManager)" where
  "DeletePage s pid =
     (case fmlookup (page_table s) pid of
        None \<Rightarrow> Inr (True, s)
      | Some f \<Rightarrow>
          if pin_count (pages s f) > 0 then Inr (False, s)
          else
            (case Remove (replacer s) f of
               Inl e \<Rightarrow> Inl e
             | Inr r \<Rightarrow>
                 (let s1 = s\<lparr> replacer := r, free_list := free_list s @ [f] \<rparr>;
                      s2 = s1\<lparr> pages := (pages s1)(f :=
                              (ResetMemory (pages s1 f))
                                \<lparr> page_id := INVALID_PAGE_ID, pin_count := 0, is_dirty := False \<rparr>) \<rparr>
                  in Inr (True, s2\<lparr> page_table := fmdrop pid (page_table s2) \<rparr>))))"

section \<open>Page guards (src/storage/page/page\_guard.cpp)\<close>

text \<open>
  A guard object lives at an address; the store \<open>guards\<close> maps the address of a guard
  to its members, so that \<open>this != &that\<close> is a comparison of addresses. A
  \<open>ReadPageGuard\<close> or \<open>WritePageGuard\<close> has one member, the \<open>BasicPageGuard\<close>
  \<open>guard_\<close>, which is stored at the address of the enclosing guard. \<open>guard_bpm\<close> says
  that \<open>bpm_\<close> is not null; \<open>guard_page\<close> is the frame \<open>page_\<close> points to.
\<close>

record BasicPageGuard =
  guard_bpm :: bool
  guard_page :: "frame_id_t option"
  guard_is_dirty :: bool

record System =
  bpm :: BufferPoolManager
  guards :: "nat \<Rightarrow> BasicPageGuard"

definition CLear :: "BasicPageGuard \<Rightarrow> BasicPageGuard" where
  "CLear g = g\<lparr> guard_bpm := False, guard_page := None, guard_is_dirty := False \<rparr>"

definition BasicPageGuard_Drop :: "nat \<Rightarrow> System \<Rightarrow> error + System" where
  "BasicPageGuard_Drop this sys =
     (case
        (case guard_page (guards sys this) of
           Some f \<Rightarrow>
             if guard_bpm (guards sys this) then
               (case UnpinPage (bpm sys) (page_id (pages (bpm sys) f)) (guard_is_dirty (guards sys this)) of
                  Inl e \<Rightarrow> Inl e
                | Inr (b, s') \<Rightarrow> Inr (sys\<lparr> bpm := s' \<rparr>))
             else Inr sys
         | None \<Rightarrow> Inr sys)
      of
        Inl e \<Rightarrow> Inl e
      | Inr sys1 \<Rightarrow> Inr (sys1\<lparr> guards := (guards sys1)(this := CLear (guards sys1 this)) \<rparr>))"

definition BasicPageGuard_move_assign :: "nat \<Rightarrow> nat \<Rightarrow> System \<Rightarrow> error + System" where
  "BasicPageGuard_move_assign this that sys =
     (if this \<noteq> that then
        (case BasicPageGuard_Drop this sys of
           Inl e \<Rightarrow> Inl e
         | Inr sys1 \<Rightarrow>
             (let sys2 = sys1\<lparr> guards := (guards sys1)(this := guards sys1 that) \<rparr>
              in Inr (sys2\<lparr> guards := (guards sys2)(that := CLear (guards sys2 that)) \<rparr>)))
      else Inr sys)"

text \<open>The destructor \<open>~BasicPageGuard\<close>.\<close>

definition BasicPageGuard_destroy :: "nat \<Rightarrow> System \<Rightarrow> error + System" where
  "BasicPageGuard_destroy this sys = BasicPageGuard_Drop this sys"

definition ReadPageGuard_Drop :: "nat \<Rightarrow> System \<Rightarrow> error + System" where
  "ReadPageGuard_Drop this sys =
     (case guard_page (guards sys this) of
        None \<Rightarrow> Inr sys
      | Some f \<Rightarrow>
          (case RUnlatch (pages (bpm sys) f) of
             Inl e \<Rightarrow> Inl e
           | Inr p \<Rightarrow>
               BasicPageGuard_Drop this
                 (sys\<lparr> bpm := (bpm sys)\<lparr> pages := (pages (bpm sys))(f := p) \<rparr> \<rparr>)))"

definition ReadPageGuard_move_assign :: "nat \<Rightarrow> nat \<Rightarrow> System \<Rightarrow> error + System" where
  "ReadPageGuard_move_assign this that sys =
     (case ReadPageGuard_Drop this sys of
        Inl e \<Rightarrow> Inl e
      | Inr sys1 \<Rightarrow> BasicPageGuard_move_assign this that sys1)"

text \<open>
  The destructor \<open>~ReadPageGuard\<close>: its body, then the destructor of the member
  \<open>guard_\<close>.
\<close>

definition ReadPageGuard_destroy :: "nat \<Rightarrow> System \<Rightarrow> error + System" where
  "ReadPageGuard_destroy this sys =
     (case ReadPageGuard_Drop this sys of
        Inl e \<Rightarrow> Inl e
      | Inr sys1 \<Rightarrow> BasicPageGuard_destroy this sys1)"

definition WritePageGuard_Drop :: "nat \<Rightarrow> System \<Rightarrow> error + System" where
  "WritePageGuard_Drop this sys =
     (case guard_page (guards sys this) of
        None \<Rightarrow> Inr sys
      | Some f \<Rightarrow>
          (case WUnlatch (pages (bpm sys) f) of
             Inl e \<Rightarrow> Inl e
           | Inr p \<Rightarrow>
               BasicPageGuard_Drop this
                 (sys\<lparr> bpm := (bpm sys)\<lparr> pages := (pages (bpm sys))(f := p) \<rparr> \<rparr>)))"

definition WritePageGuard_move_assign :: "nat \<Rightarrow> nat \<Rightarrow> System \<Rightarrow> error + System" where
  "WritePageGuard_move_assign this that sys =
     (case WritePageGuard_Drop this sys of
        Inl e \<Rightarrow> Inl e
      | Inr sys1 \<Rightarrow> BasicPageGuard_move_assign this that sys1)"

text \<open>
  The destructor \<open>~WritePageGuard\<close>: its body, then the destructor of the member
  \<open>guard_\<close>.
\<close>

definition WritePageGuard_destroy :: "nat \<Rightarrow> System \<Rightarrow> error + System" where
  "WritePageGuard_destroy this sys =
     (case WritePageGuard_Drop this sys of
        Inl e \<Rightarrow> Inl e
      | Inr sys1 \<Rightarrow> BasicPageGuard_destroy this sys1)"

section \<open>Invariants and example states\<close>

text \<open>
  The invariant of the replacer: \<open>K\<close> is positive, the index is in the order of its
  comparison, every record has a non-empty history, the replacer's \<open>K\<close> and a frame id
  that passed the check of \<open>RecordAccess\<close>, and the index holds exactly the keys of
  the evictable records. The constructor establishes it and every operation keeps it
  (lemmas \<open>replacer_inv_new\<close> to \<open>replacer_inv_Remove\<close>).
\<close>

definition replacer_inv :: "LRUKReplacer \<Rightarrow> bool" where
  "replacer_inv r \<longleftrightarrow>
     0 < replacer_k r \<and>
     sorted_wrt index_less (st r) \<and>
     (\<forall>f n. node_store r f = Some n \<longrightarrow>
        history n \<noteq> [] \<and> node_k n = replacer_k r \<and> \<not> replacer_size r < size_t_cast f) \<and>
     (\<forall>d t f. (d, t, f) \<in> set (st r) \<longleftrightarrow>
        (\<exists>n. node_store r f = Some n \<and> is_evictable n \<and> d = GetDistance n \<and> t = hd (history n)))"

text \<open>
  The states of a replacer: those reached from the constructor, with a positive
  \<open>K\<close>, by its operations.
\<close>

inductive replacer_reachable :: "LRUKReplacer \<Rightarrow> bool" where
  new: "0 < k \<Longrightarrow> replacer_reachable (LRUKReplacer_new num_frames k t0)"
| access: "replacer_reachable r \<Longrightarrow> RecordAccess r f = Inr r' \<Longrightarrow> replacer_reachable r'"
| set_evictable:
    "replacer_reachable r \<Longrightarrow> SetEvictable r f b = Inr r' \<Longrightarrow> replacer_reachable r'"
| remove: "replacer_reachable r \<Longrightarrow> Remove r f = Inr r' \<Longrightarrow> replacer_reachable r'"
| evict: "replacer_reachable r \<Longrightarrow> replacer_reachable (snd (Evict r))"

text \<open>
  An example state of the replacer, with \<open>K = 3\<close>: frame 1 was accessed twice, frame 2
  three times, frame 3 once, and all three were then marked evictable (lemma
  \<open>example_replacer_reached\<close> runs these calls on a new replacer).
\<close>

definition example_replacer :: LRUKReplacer where
  "example_replacer =
     \<lparr> node_store =
         [1 \<mapsto> \<lparr> history = [1, 2], node_k = 3, fid = 1, is_evictable = True \<rparr>,
          2 \<mapsto> \<lparr> history = [3, 4, 5], node_k = 3, fid = 2, is_evictable = True \<rparr>,
          3 \<mapsto> \<lparr> history = [6], node_k = 3, fid = 3, is_evictable = True \<rparr>],
       st = [(0, 3, 2), (INF_DISTANCE, 6, 3), (INF_DISTANCE, 1, 1)],
       replacer_size = 7, replacer_k = 3, time_base_line = 6 \<rparr>"

text \<open>
  The invariant of the manager: the replacer's invariant holds; the page table maps a
  page id only to a frame that hosts that page and has a record in the replacer; a
  record is evictable exactly when the pin count of its frame is 0; no pin count is
  negative; the free list has no duplicates, and its frames have no record and pass
  the check of \<open>RecordAccess\<close>; every frame id in the free list or with a record (so
  every frame id in the page table too) is within \<open>0 .. pool_size - 1\<close>, the bounds of
  \<open>pages_\<close>. The constructor establishes it when \<open>K\<close> is positive,
  and \<open>NewPage\<close>, \<open>FetchPage\<close>, \<open>UnpinPage\<close>, \<open>FlushPage\<close> and \<open>DeletePage\<close> keep
  it, whatever their arguments (lemmas \<open>bpm_inv_new\<close> to \<open>bpm_inv_FetchPage\<close>).
\<close>

definition bpm_inv :: "BufferPoolManager \<Rightarrow> bool" where
  "bpm_inv s \<longleftrightarrow>
     replacer_inv (replacer s) \<and>
     (\<forall>pid f. fmlookup (page_table s) pid = Some f \<longrightarrow>
        page_id (pages s f) = pid \<and> node_store (replacer s) f \<noteq> None) \<and>
     (\<forall>f n. node_store (replacer s) f = Some n \<longrightarrow>
        (is_evictable n \<longleftrightarrow> pin_count (pages s f) = 0)) \<and>
     (\<forall>f. 0 \<le> pin_count (pages s f)) \<and>
     distinct (free_list s) \<and>
     (\<forall>f \<in> set (free_list s).
        node_store (replacer s) f = None \<and> \<not> replacer_size (replacer s) < size_t_cast f) \<and>
     (\<forall>f. f \<in> set (free_list s) \<or> node_store (replacer s) f \<noteq> None \<longrightarrow>
        0 \<le> f \<and> f < int (pool_size s))"

text \<open>
  The caller writes the bytes of a page through the pointer that \<open>NewPage\<close> or
  \<open>FetchPage\<close> returned.
\<close>

definition write_data :: "BufferPoolManager \<Rightarrow> frame_id_t \<Rightarrow> nat list \<Rightarrow> BufferPoolManager" where
  "write_data s f bytes = s\<lparr> pages := (pages s)(f := (pages s f)\<lparr> data := bytes \<rparr>) \<rparr>"

text \<open>
  An example state of the manager: a pool of two frames with pages of four bytes and
  \<open>K = 2\<close>, after \<open>NewPage\<close> twice (pages 0 and 1 in frames 0 and 1), the caller
  having written both pages and unpinned page 1 as dirty (lemma
  \<open>example_bpm_reached\<close>). Page 0 is pinned and clean, page 1 is unpinned, dirty and
  evictable, and the free list is empty.
\<close>

definition example_disk :: DiskManager where
  "example_disk = \<lparr> disk_pages = (\<lambda>_. [0, 0, 0, 0]), write_log = [] \<rparr>"

definition example_bpm :: BufferPoolManager where
  "example_bpm =
     \<lparr> pool_size = 2,
       pages = (\<lambda>_. Page_new 4)
         (0 := \<lparr> data = [1, 2, 3, 4], page_id = 0, pin_count = 1, is_dirty = False,
                 readers = 0, writer = False \<rparr>,
          1 := \<lparr> data = [5, 6, 7, 8], page_id = 1, pin_count = 0, is_dirty = True,
                 readers = 0, writer = False \<rparr>),
       page_table = fmupd 1 1 (fmupd 0 0 fmempty),
       free_list = [],
       replacer =
         \<lparr> node_store =
             [0 \<mapsto> \<lparr> history = [1], node_k = 2, fid = 0, is_evictable = False \<rparr>,
              1 \<mapsto> \<lparr> history = [2], node_k = 2, fid = 1, is_evictable = True \<rparr>],
           st = [(INF_DISTANCE, 2, 1)],
           replacer_size = 2, replacer_k = 2, time_base_line = 2 \<rparr>,
       disk_manager = example_disk,
       next_page_id = 2 \<rparr>"

text \<open>
  Two example states with a guard at address 0 that holds frame 0 of \<open>example_bpm\<close>:
  in the first the reader latch of the frame is held once, in the second the writer
  latch is held and the guard's \<open>is_dirty_\<close> is set.
\<close>

definition empty_guard :: BasicPageGuard where
  "empty_guard = \<lparr> guard_bpm = False, guard_page = None, guard_is_dirty = False \<rparr>"

definition example_read_sys :: System where
  "example_read_sys =
     \<lparr> bpm = example_bpm\<lparr> pages := (pages example_bpm)(0 := (pages example_bpm 0)\<lparr> readers := 1 \<rparr>) \<rparr>,
       guards = (\<lambda>_. empty_guard)
         (0 := \<lparr> guard_bpm = True, guard_page = Some 0, guard_is_dirty = False \<rparr>) \<rparr>"

definition example_write_sys :: System where
  "example_write_sys =
     \<lparr> bpm = example_bpm\<lparr> pages := (pages example_bpm)(0 := (pages example_bpm 0)\<lparr> writer := True \<rparr>) \<rparr>,
       guards = (\<lambda>_. empty_guard)
         (0 := \<lparr> guard_bpm = True, guard_page = Some 0, guard_is_dirty = True \<rparr>) \<rparr>"

text \<open>
  Every frame with a record in the replacer hosts a resident page: the page table maps
  the frame's page id to the frame. This holds after the constructor and is kept by
  \<open>FetchPage\<close>, \<open>UnpinPage\<close>, \<open>FlushPage\<close> and \<open>DeletePage\<close>, and by \<open>NewPage\<close> when the
  page id it allocates is not resident already (lemmas \<open>frames_resident_new\<close> to
  \<open>frames_resident_FetchPage\<close>). \<open>NewPage\<close> does not keep it otherwise: it installs
  the allocated id without looking it up, so after \<open>FetchPage\<close> of an id that
  \<open>AllocatePage\<close> has not handed out yet, the \<open>NewPage\<close> that allocates that id takes
  the mapping away from the frame that hosts the page.
\<close>

definition frames_resident :: "BufferPoolManager \<Rightarrow> bool" where
  "frames_resident s \<longleftrightarrow>
     (\<forall>f n. node_store (replacer s) f = Some n \<longrightarrow>
        fmlookup (page_table s) (page_id (pages s f)) = Some f)"

section \<open>Properties of the ordered index\<close>

lemma index_less_irrefl: "\<not> index_less x x"
  by (cases x) simp

lemma index_less_trans: "index_less x y \<Longrightarrow> index_less y z \<Longrightarrow> index_less x z"
  by (cases x; cases y; cases z) auto

lemma index_less_total: "index_less x y \<or> x = y \<or> index_less y x"
  by (cases x; cases y) auto

lemma index_less_neq: "(index_less x y \<or> index_less y x) \<longleftrightarrow> x \<noteq> y"
  using index_less_irrefl index_less_total by blast

lemma set_erase_removeAll: "set_erase x ys = removeAll x ys"
  unfolding set_erase_def index_less_neq by (induction ys) auto

lemma set_set_insert: "set (set_insert x xs) = insert x (set xs)"
proof (induction xs)
  case Nil
  show ?case by simp
next
  case (Cons y ys)
  show ?case
  proof (cases "index_less x y")
    case True
    then show ?thesis by simp
  next
    case False
    then show ?thesis using Cons index_less_total [of x y] by auto
  qed
qed

lemma sorted_set_insert:
  "sorted_wrt index_less xs \<Longrightarrow> sorted_wrt index_less (set_insert x xs)"
proof (induction xs)
  case Nil
  show ?case by simp
next
  case (Cons y ys)
  then show ?case
    by (auto simp: set_set_insert intro: index_less_trans)
qed

lemma sorted_set_erase:
  "sorted_wrt index_less xs \<Longrightarrow> sorted_wrt index_less (set_erase x xs)"
  unfolding set_erase_def by (rule sorted_wrt_filter)

lemma set_set_erase: "set (set_erase x xs) = set xs - {x}"
  by (simp add: set_erase_removeAll)

lemma sorted_last_greatest:
  "sorted_wrt index_less xs \<Longrightarrow> y \<in> set xs \<Longrightarrow> y = last xs \<or> index_less y (last xs)"
proof (induction xs)
  case Nil
  then show ?case by simp
next
  case (Cons a as)
  then show ?case by (cases "as = []") auto
qed

lemma sorted_butlast:
  "sorted_wrt index_less xs \<Longrightarrow> sorted_wrt index_less (butlast xs)"
  by (metis append_butlast_last_id butlast.simps(1) sorted_wrt_append)

lemma sorted_distinct: "sorted_wrt index_less xs \<Longrightarrow> distinct xs"
  by (induction xs) (auto simp: index_less_irrefl)

lemma set_butlast_sorted:
  assumes "sorted_wrt index_less xs" and "xs \<noteq> []"
  shows "set (butlast xs) = set xs - {last xs}"
proof -
  have eq: "xs = butlast xs @ [last xs]" using assms(2) by simp
  have "distinct (butlast xs @ [last xs])"
    using sorted_distinct [OF assms(1)] eq by simp
  then have notin: "last xs \<notin> set (butlast xs)" by simp
  have "set xs = insert (last xs) (set (butlast xs))"
    using eq by (metis Un_insert_right list.set(1) list.simps(15) set_append sup_bot.right_neutral)
  then show ?thesis using notin by auto
qed

lemma Add_history_nonempty: "0 < node_k n \<Longrightarrow> history (Add n t) \<noteq> []"
  by (cases "history n") (auto simp: Add_def Let_def)

lemma Add_fields [simp]:
  "is_evictable (Add n t) = is_evictable n" "node_k (Add n t) = node_k n" "fid (Add n t) = fid n"
  by (simp_all add: Add_def Let_def)

lemma FirstTime_nonempty: "history n \<noteq> [] \<Longrightarrow> FirstTime n = Inr (hd (history n))"
  by (simp add: FirstTime_def)

lemma replacer_inv_new: "0 < k \<Longrightarrow> replacer_inv (LRUKReplacer_new num_frames k t0)"
  by (simp add: replacer_inv_def LRUKReplacer_new_def)

lemma replacer_inv_Evict:
  assumes "replacer_inv r"
  shows "replacer_inv (snd (Evict r))"
proof (cases "st r = []")
  case True
  then show ?thesis using assms by (simp add: Evict_def)
next
  case False
  obtain d t f where l: "last (st r) = (d, t, f)" by (cases "last (st r)")
  have srt: "sorted_wrt index_less (st r)" using assms by (simp add: replacer_inv_def)
  have E: "snd (Evict r) = r\<lparr> st := butlast (st r), node_store := (node_store r)(f := None) \<rparr>"
    using False l by (simp add: Evict_def)
  have mem: "(d, t, f) \<in> set (st r)" using False l last_in_set by metis
  have sb: "set (butlast (st r)) = set (st r) - {(d, t, f)}"
    using set_butlast_sorted [OF srt False] l by simp
  show ?thesis
    unfolding E replacer_inv_def
    using assms mem sb srt
    apply (simp add: replacer_inv_def sorted_butlast)
    apply (intro allI)
    apply auto
    done
qed

lemma replacer_inv_RecordAccess:
  assumes inv: "replacer_inv r" and ok: "RecordAccess r f = Inr r'"
  shows "replacer_inv r'"
proof (cases "node_store r f")
  case None
  from inv have kpos: "0 < replacer_k r" by (simp add: replacer_inv_def)
  let ?n = "Add (LRUKNode_new f (replacer_k r)) (CurrentTimestamp (time_base_line r))"
  have ne: "history ?n \<noteq> []"
    by (rule Add_history_nonempty) (simp add: LRUKNode_new_def kpos)
  have nev: "\<not> is_evictable ?n" by (simp add: LRUKNode_new_def)
  have sz: "\<not> replacer_size r < size_t_cast f"
    using ok by (auto simp: RecordAccess_def split: if_splits)
  have r': "r' = r\<lparr> node_store := (node_store r)(f \<mapsto> ?n),
                     time_base_line := CurrentTimestamp (time_base_line r) \<rparr>"
    using ok None nev sz by (simp add: RecordAccess_def Let_def GetEvictable_def)
  show ?thesis
    unfolding r' using inv None ne nev sz kpos
    by (auto simp: replacer_inv_def LRUKNode_new_def)
next
  case (Some n)
  from inv Some have hn: "history n \<noteq> []" and kn: "0 < node_k n"
    by (auto simp: replacer_inv_def)
  from inv Some have kn': "node_k n = replacer_k r" by (auto simp: replacer_inv_def)
  let ?t = "CurrentTimestamp (time_base_line r)"
  let ?n = "Add n ?t"
  have ne: "history ?n \<noteq> []" by (rule Add_history_nonempty [OF kn])
  have sz: "\<not> replacer_size r < size_t_cast f"
    using ok by (auto simp: RecordAccess_def split: if_splits)
  let ?r1 = "r\<lparr> st := set_erase (GetDistance n, hd (history n), f) (st r) \<rparr>"
  let ?r2 = "?r1\<lparr> node_store := (node_store r)(f \<mapsto> ?n), time_base_line := ?t \<rparr>"
  have srt: "sorted_wrt index_less (st r)" using inv by (simp add: replacer_inv_def)
  show ?thesis
  proof (cases "is_evictable n")
    case True
    have r': "r' = ?r2\<lparr> st := set_insert (GetDistance ?n, hd (history ?n), f) (st ?r2) \<rparr>"
      using ok Some sz True hn ne
      by (simp add: RecordAccess_def Let_def GetEvictable_def FirstTime_nonempty)
    show ?thesis
      unfolding r' using inv Some ne kn kn' sz True srt
      by (auto simp: replacer_inv_def sorted_set_insert sorted_set_erase
            set_set_insert set_set_erase)
  next
    case False
    have r': "r' = ?r2"
      using ok Some sz False hn
      by (simp add: RecordAccess_def Let_def GetEvictable_def FirstTime_nonempty)
    show ?thesis
      unfolding r' using inv Some ne kn kn' sz False srt
      by (auto simp: replacer_inv_def sorted_set_erase set_set_erase)
  qed
qed

lemma replacer_inv_SetEvictable:
  assumes inv: "replacer_inv r" and ok: "SetEvictable r f b = Inr r'"
  shows "replacer_inv r'"
proof (cases "node_store r f")
  case None
  then show ?thesis using inv ok by (simp add: SetEvictable_def)
next
  case (Some n)
  from inv Some have hn: "history n \<noteq> []" by (auto simp: replacer_inv_def)
  have srt: "sorted_wrt index_less (st r)" using inv by (simp add: replacer_inv_def)
  show ?thesis
  proof (cases "is_evictable n = b")
    case True
    then show ?thesis using inv ok Some by (simp add: SetEvictable_def GetEvictable_def)
  next
    case False
    show ?thesis
    proof (cases b)
      case True
      have r': "r' = r\<lparr> node_store := (node_store r)(f \<mapsto> SetEvictable_node n True),
                         st := set_insert (GetDistance n, hd (history n), f) (st r) \<rparr>"
        using ok Some False True hn
        by (simp add: SetEvictable_def GetEvictable_def FirstTime_nonempty Let_def)
      show ?thesis
        unfolding r' using inv Some False True srt
        by (auto simp: replacer_inv_def sorted_set_insert set_set_insert
              SetEvictable_node_def GetDistance_def)
    next
      case b: False
      have r': "r' = r\<lparr> node_store := (node_store r)(f \<mapsto> SetEvictable_node n False),
                         st := set_erase (GetDistance n, hd (history n), f) (st r) \<rparr>"
        using ok Some False b hn
        by (simp add: SetEvictable_def GetEvictable_def FirstTime_nonempty Let_def)
      show ?thesis
        unfolding r' using inv Some False b srt
        by (auto simp: replacer_inv_def sorted_set_erase set_set_erase
              SetEvictable_node_def GetDistance_def)
    qed
  qed
qed

lemma replacer_inv_Remove:
  assumes inv: "replacer_inv r" and ok: "Remove r f = Inr r'"
  shows "replacer_inv r'"
proof (cases "node_store r f")
  case None
  then show ?thesis using inv ok by (simp add: Remove_def)
next
  case (Some n)
  from inv Some have hn: "history n \<noteq> []" by (auto simp: replacer_inv_def)
  have srt: "sorted_wrt index_less (st r)" using inv by (simp add: replacer_inv_def)
  show ?thesis
  proof (cases "is_evictable n")
    case False
    then show ?thesis using inv ok Some by (simp add: Remove_def GetEvictable_def)
  next
    case True
    have r': "r' = r\<lparr> st := set_erase (GetDistance n, hd (history n), f) (st r),
                       node_store := (node_store r)(f := None) \<rparr>"
      using ok Some True hn
      by (simp add: Remove_def GetEvictable_def FirstTime_nonempty)
    show ?thesis
      unfolding r' using inv Some True srt
      by (auto simp: replacer_inv_def sorted_set_erase set_set_erase)
  qed
qed

lemma SetEvictable_succeeds:
  assumes inv: "replacer_inv r"
  shows "\<exists>r'. SetEvictable r f b = Inr r'"
  using inv
  by (auto simp: SetEvictable_def replacer_inv_def FirstTime_def Let_def split: option.splits)

lemma Remove_succeeds:
  assumes inv: "replacer_inv r"
  shows "\<exists>r'. Remove r f = Inr r'"
  using inv
  by (auto simp: Remove_def replacer_inv_def FirstTime_def Let_def split: option.splits)

lemma RecordAccess_succeeds:
  assumes inv: "replacer_inv r" and "\<not> replacer_size r < size_t_cast f"
  shows "\<exists>r'. RecordAccess r f = Inr r'"
proof (cases "node_store r f")
  case None
  then show ?thesis using assms
    by (auto simp: RecordAccess_def Let_def FirstTime_def replacer_inv_def LRUKNode_new_def
        GetEvictable_def)
next
  case (Some n)
  from inv Some have hn: "history n \<noteq> []" and kn: "0 < node_k n"
    by (auto simp: replacer_inv_def)
  from inv Some have kn': "node_k n = replacer_k r" by (auto simp: replacer_inv_def)
  have ne: "history (Add n t) \<noteq> []" for t by (rule Add_history_nonempty [OF kn])
  show ?thesis using assms Some hn ne
    by (auto simp: RecordAccess_def Let_def FirstTime_def)
qed

lemma replacer_reachable_inv: "replacer_reachable r \<Longrightarrow> replacer_inv r"
proof (induction rule: replacer_reachable.induct)
  case (new k num_frames t0)
  then show ?case by (rule replacer_inv_new)
next
  case (access r f r')
  then show ?case using replacer_inv_RecordAccess by blast
next
  case (set_evictable r f b r')
  then show ?case using replacer_inv_SetEvictable by blast
next
  case (remove r f r')
  then show ?case using replacer_inv_Remove by blast
next
  case (evict r)
  then show ?case using replacer_inv_Evict by blast
qed

section \<open>Replacer: eviction order\<close>

text \<open>
  Claim C1. In every state of the replacer that satisfies its invariant (so in every
  state reached from the constructor, lemma \<open>replacer_reachable_inv\<close>) and has a
  non-empty index, \<open>Evict\<close> returns a frame \<open>f\<close> whose record is evictable and
  such that every evictable record has a distance no greater than that of \<open>f\<close> and,
  at equal distance, a first timestamp no earlier than that of \<open>f\<close>. The first
  timestamp of a record is what \<open>FirstTime\<close> returns for it, the front of its
  history, and the last key of the index is the key of \<open>f\<close>: its distance, that
  timestamp and \<open>f\<close>. If some
  evictable record has fewer than \<open>K\<close> accesses, so has \<open>f\<close> (the infinite distance
  beats the finite one). The record of \<open>f\<close> is erased from \<open>node_store\<close> (its history
  is forgotten), its key is removed from the index, which loses exactly that element.
  The order of the index is the one the spec states (see \<open>index_less\<close>).
\<close>

theorem Evict_greatest:
  assumes inv: "replacer_inv r" and ne: "st r \<noteq> []"
  shows "\<exists>f n. fst (Evict r) = Some f \<and> node_store r f = Some n \<and> is_evictable n \<and>
           history n \<noteq> [] \<and> FirstTime n = Inr (hd (history n)) \<and>
           last (st r) = (GetDistance n, hd (history n), f) \<and>
           (\<forall>g m. node_store r g = Some m \<and> is_evictable m \<longrightarrow>
              history m \<noteq> [] \<and> FirstTime m = Inr (hd (history m)) \<and>
              GetDistance m \<le> GetDistance n \<and>
              (GetDistance m = GetDistance n \<longrightarrow> hd (history n) \<le> hd (history m))) \<and>
           ((\<exists>g m. node_store r g = Some m \<and> is_evictable m \<and> length (history m) < node_k m)
              \<longrightarrow> length (history n) < node_k n \<and> GetDistance n = INF_DISTANCE) \<and>
           node_store (snd (Evict r)) = (node_store r)(f := None) \<and>
           st (snd (Evict r)) = butlast (st r) \<and>
           (\<forall>e \<in> set (st (snd (Evict r))). snd (snd e) \<noteq> f) \<and>
           Size (snd (Evict r)) + 1 = Size r"
proof -
  obtain d t f where l: "last (st r) = (d, t, f)" by (cases "last (st r)")
  have srt: "sorted_wrt index_less (st r)" using inv by (simp add: replacer_inv_def)
  have idx: "(d', t', f') \<in> set (st r) \<longleftrightarrow>
      (\<exists>n. node_store r f' = Some n \<and> is_evictable n \<and> d' = GetDistance n \<and> t' = hd (history n))"
    for d' t' f'
    using inv by (simp add: replacer_inv_def)
  have hist: "node_store r g = Some m \<Longrightarrow> history m \<noteq> []" for g m
    using inv by (auto simp: replacer_inv_def)
  have mem: "(d, t, f) \<in> set (st r)" using ne l last_in_set by metis
  then obtain n where n: "node_store r f = Some n" "is_evictable n" "d = GetDistance n"
      "t = hd (history n)"
    using idx by blast
  have E1: "fst (Evict r) = Some f" using ne l by (simp add: Evict_def)
  have E2: "snd (Evict r) = r\<lparr> st := butlast (st r), node_store := (node_store r)(f := None) \<rparr>"
    using ne l by (simp add: Evict_def)
  have best: "history m \<noteq> [] \<and> FirstTime m = Inr (hd (history m)) \<and>
      GetDistance m \<le> GetDistance n \<and>
      (GetDistance m = GetDistance n \<longrightarrow> hd (history n) \<le> hd (history m))"
    if gm: "node_store r g = Some m" "is_evictable m" for g m
  proof -
    have "(GetDistance m, hd (history m), g) \<in> set (st r)" using idx gm by blast
    from sorted_last_greatest [OF srt this]
    have "(GetDistance m, hd (history m), g) = (d, t, f) \<or>
          index_less (GetDistance m, hd (history m), g) (d, t, f)"
      using l by simp
    then have "GetDistance m \<le> d \<and> (GetDistance m = d \<longrightarrow> t \<le> hd (history m))"
      by auto
    moreover have "FirstTime m = Inr (hd (history m))"
      using hist [OF gm(1)] by (simp add: FirstTime_def)
    ultimately show ?thesis using n(3,4) hist [OF gm(1)] by simp
  qed
  have inf: "length (history n) < node_k n \<and> GetDistance n = INF_DISTANCE"
    if gm: "node_store r g = Some m" "is_evictable m" "length (history m) < node_k m" for g m
  proof -
    have "GetDistance m = INF_DISTANCE" using gm(3) by (simp add: GetDistance_def)
    moreover have "GetDistance m \<le> GetDistance n" using best [OF gm(1,2)] by simp
    moreover have "0 < INF_DISTANCE" by (simp add: INF_DISTANCE_def)
    ultimately show ?thesis by (cases "length (history n) < node_k n") (simp_all add: GetDistance_def)
  qed
  have gone: "snd (snd e) \<noteq> f" if e: "e \<in> set (butlast (st r))" for e
  proof
    assume ef: "snd (snd e) = f"
    obtain d' t' where e': "e = (d', t', f)" using ef by (cases e) auto
    have "e \<in> set (st r)" using e by (rule in_set_butlastD)
    then have "\<exists>n'. node_store r f = Some n' \<and> is_evictable n' \<and> d' = GetDistance n' \<and>
        t' = hd (history n')"
      unfolding e' idx .
    then have "e = (d, t, f)" using e' n by auto
    moreover have "e \<noteq> last (st r)"
      using e set_butlast_sorted [OF srt ne] by auto
    ultimately show False using l by simp
  qed
  have sz: "Size (snd (Evict r)) + 1 = Size r"
    using ne by (simp add: E2 Size_def)
  have c0: "history n \<noteq> []" "FirstTime n = Inr (hd (history n))"
    "last (st r) = (GetDistance n, hd (history n), f)"
    using hist [OF n(1)] l n(3,4) by (simp_all add: FirstTime_def)
  have c1: "\<forall>g m. node_store r g = Some m \<and> is_evictable m \<longrightarrow>
              history m \<noteq> [] \<and> FirstTime m = Inr (hd (history m)) \<and>
              GetDistance m \<le> GetDistance n \<and>
              (GetDistance m = GetDistance n \<longrightarrow> hd (history n) \<le> hd (history m))"
    using best by blast
  have c2: "(\<exists>g m. node_store r g = Some m \<and> is_evictable m \<and> length (history m) < node_k m)
              \<longrightarrow> length (history n) < node_k n \<and> GetDistance n = INF_DISTANCE"
    using inf by blast
  have c3: "node_store (snd (Evict r)) = (node_store r)(f := None)" by (simp add: E2)
  have c4: "st (snd (Evict r)) = butlast (st r)" by (simp add: E2)
  have c5: "\<forall>e \<in> set (st (snd (Evict r))). snd (snd e) \<noteq> f"
    using gone unfolding c4 by blast
  from E1 n(1,2) c0 c1 c2 c3 c4 c5 sz show ?thesis by blast
qed


lemma replacer_inv_example: "replacer_inv example_replacer"
  unfolding replacer_inv_def example_replacer_def
  by (auto simp: INF_DISTANCE_def GetDistance_def size_t_cast_def split: if_splits)


lemma INF_DISTANCE_pos: "0 < INF_DISTANCE"
  by (simp add: INF_DISTANCE_def)

lemma example_replacer_reached:
  "(case RecordAccess (LRUKReplacer_new 7 3 0) 1 of Inr r1 \<Rightarrow>
    (case RecordAccess r1 1 of Inr r2 \<Rightarrow>
    (case RecordAccess r2 2 of Inr r3 \<Rightarrow>
    (case RecordAccess r3 2 of Inr r4 \<Rightarrow>
    (case RecordAccess r4 2 of Inr r5 \<Rightarrow>
    (case RecordAccess r5 3 of Inr r6 \<Rightarrow>
    (case SetEvictable r6 1 True of Inr r7 \<Rightarrow>
    (case SetEvictable r7 2 True of Inr r8 \<Rightarrow>
       SetEvictable r8 3 True = Inr example_replacer
     | _ \<Rightarrow> False) | _ \<Rightarrow> False) | _ \<Rightarrow> False) | _ \<Rightarrow> False)
     | _ \<Rightarrow> False) | _ \<Rightarrow> False) | _ \<Rightarrow> False) | _ \<Rightarrow> False)"
  apply (simp add: RecordAccess_def SetEvictable_def LRUKReplacer_new_def LRUKNode_new_def
      Add_def CurrentTimestamp_def GetEvictable_def GetDistance_def FirstTime_def
      SetEvictable_node_def size_t_cast_def Let_def example_replacer_def fun_upd_twist
      set_erase_def INF_DISTANCE_pos)
  apply (simp add: numeral_2_eq_2 numeral_3_eq_3)?
  done

text \<open>
  On the example: frames 1 and 3 have fewer than \<open>K = 3\<close> accesses and frame 2 has
  three; frame 1 was first accessed at time 1 and frame 3 at time 6. \<open>Evict\<close> returns
  frame 1.
\<close>

theorem Evict_greatest_witness:
  "replacer_inv example_replacer \<and> st example_replacer \<noteq> [] \<and>
   fst (Evict example_replacer) = Some 1 \<and>
   last (st example_replacer) = (INF_DISTANCE, 1, 1) \<and>
   map_option FirstTime (node_store example_replacer 1) = Some (Inr 1) \<and>
   map_option FirstTime (node_store example_replacer 3) = Some (Inr 6) \<and>
   map_option GetDistance (node_store example_replacer 1) = Some INF_DISTANCE \<and>
   map_option GetDistance (node_store example_replacer 3) = Some INF_DISTANCE \<and>
   map_option GetDistance (node_store example_replacer 2) = Some 0 \<and>
   node_store (snd (Evict example_replacer)) 1 = None"
proof -
  have h1: "replacer_inv example_replacer" by (rule replacer_inv_example)
  have h2: "st example_replacer \<noteq> []" by (simp add: example_replacer_def)
  from Evict_greatest [OF h1 h2] obtain f n where
    f: "fst (Evict example_replacer) = Some f" "node_store example_replacer f = Some n"
    and ft: "FirstTime n = Inr (hd (history n))"
    and lst: "last (st example_replacer) = (GetDistance n, hd (history n), f)"
    and gone: "node_store (snd (Evict example_replacer)) = (node_store example_replacer)(f := None)"
    by blast
  have l: "last (st example_replacer) = (INF_DISTANCE, 1, 1)"
    by (simp add: example_replacer_def)
  from lst l have v: "f = 1" "hd (history n) = 1" "GetDistance n = INF_DISTANCE" by simp_all
  have a: "fst (Evict example_replacer) = Some 1" using f(1) v(1) by simp
  have b: "map_option FirstTime (node_store example_replacer 1) = Some (Inr 1)"
    using f(2) ft v(1,2) by simp
  have c: "map_option GetDistance (node_store example_replacer 1) = Some INF_DISTANCE"
    using f(2) v(1,3) by simp
  have d: "node_store (snd (Evict example_replacer)) 1 = None" using gone v(1) by simp
  have e: "map_option FirstTime (node_store example_replacer 3) = Some (Inr 6)"
    "map_option GetDistance (node_store example_replacer 3) = Some INF_DISTANCE"
    "map_option GetDistance (node_store example_replacer 2) = Some 0"
    by (simp_all add: example_replacer_def FirstTime_def GetDistance_def)
  from h1 h2 a l b c d e show ?thesis by simp
qed

section \<open>Replacer: the frame id check of RecordAccess\<close>

lemma size_t_cast_nonneg: "0 \<le> f \<Longrightarrow> f < 2 ^ 31 \<Longrightarrow> size_t_cast f = nat f"
  by (simp add: size_t_cast_def)

lemma size_t_cast_neg:
  assumes "- (2 ^ 31) \<le> f" and "f < 0"
  shows "size_t_cast f = nat (2 ^ 64 + f)"
proof -
  have "f mod 2 ^ 64 = (f + 2 ^ 64) mod 2 ^ 64" by simp
  also have "\<dots> = f + 2 ^ 64" using assms by (intro mod_pos_pos_trivial) auto
  finally show ?thesis by (simp add: size_t_cast_def add.commute)
qed

lemma RecordAccess_raises_iff:
  assumes inv: "replacer_inv r"
  shows "RecordAccess r f = Inl InvalidFrameId \<longleftrightarrow> replacer_size r < size_t_cast f"
proof (cases "replacer_size r < size_t_cast f")
  case True
  then show ?thesis by (simp add: RecordAccess_def)
next
  case False
  from RecordAccess_succeeds [OF inv False] obtain r' where "RecordAccess r f = Inr r'" ..
  then show ?thesis using False by simp
qed

lemma RecordAccess_history:
  assumes inv: "replacer_inv r" and sz: "\<not> replacer_size r < size_t_cast f"
  shows "\<exists>r' n'. RecordAccess r f = Inr r' \<and> node_store r' f = Some n' \<and>
           history n' =
             (let h = (case node_store r f of None \<Rightarrow> [] | Some n \<Rightarrow> history n)
                        @ [CurrentTimestamp (time_base_line r)]
              in if replacer_k r < length h then tl h else h) \<and>
           last (history n') = CurrentTimestamp (time_base_line r) \<and>
           time_base_line r' = CurrentTimestamp (time_base_line r)"
proof -
  from inv have kpos: "0 < replacer_k r" by (simp add: replacer_inv_def)
  let ?t = "CurrentTimestamp (time_base_line r)"
  show ?thesis
  proof (cases "node_store r f")
    case None
    then show ?thesis using sz kpos
      by (auto simp: RecordAccess_def Let_def LRUKNode_new_def Add_def GetEvictable_def)
  next
    case (Some n)
    from inv Some have hn: "history n \<noteq> []" and kn: "node_k n = replacer_k r"
      by (auto simp: replacer_inv_def)
    have ne: "history (Add n ?t) \<noteq> []"
      by (rule Add_history_nonempty) (simp add: kn kpos)
    have h: "history (Add n ?t) =
        (if replacer_k r < length (history n @ [?t]) then tl (history n @ [?t]) else history n @ [?t])"
      by (simp add: Add_def Let_def kn)
    have l: "last (history (Add n ?t)) = ?t"
      using hn by (cases "history n") (auto simp: h)
    show ?thesis
      using Some sz hn ne h l
      by (auto simp: RecordAccess_def Let_def FirstTime_def)
  qed
qed

text \<open>
  \<open>RecordAccess\<close> raises exactly when the frame id, converted to \<open>size_t\<close>, is greater
  than \<open>replacer_size_\<close> (lemma \<open>RecordAccess_raises_iff\<close>). So, for a 32-bit frame
  id and a replacer of fewer than \<open>2^63\<close> frames: it raises \<open>InvalidFrameId\<close> for
  every negative frame id and for every frame id greater than the replacer's size;
  for every frame id from 0 and strictly below the size it succeeds, and the frame's
  history afterwards is its earlier history (empty for an untracked frame) with the
  new timestamp appended, less the oldest entry when that exceeds \<open>K\<close>.
\<close>

lemma RecordAccess_frame_id_check:
  assumes inv: "replacer_inv r"
    and lo: "- (2 ^ 31) \<le> f" and hi: "f < 2 ^ 31"
    and size: "replacer_size r < 2 ^ 63"
  shows "(f < 0 \<or> int (replacer_size r) < f \<longrightarrow> RecordAccess r f = Inl InvalidFrameId) \<and>
         (0 \<le> f \<and> f < int (replacer_size r) \<longrightarrow>
            (\<exists>r' n'. RecordAccess r f = Inr r' \<and> node_store r' f = Some n' \<and>
               history n' =
                 (let h = (case node_store r f of None \<Rightarrow> [] | Some n \<Rightarrow> history n)
                            @ [CurrentTimestamp (time_base_line r)]
                  in if replacer_k r < length h then tl h else h) \<and>
               last (history n') = CurrentTimestamp (time_base_line r)))"
proof (intro conjI impI)
  assume a: "f < 0 \<or> int (replacer_size r) < f"
  have "replacer_size r < size_t_cast f"
  proof (cases "f < 0")
    case True
    have "size_t_cast f = nat (2 ^ 64 + f)" by (rule size_t_cast_neg [OF lo True])
    moreover have "(2::int) ^ 63 \<le> 2 ^ 64 + f" using lo by simp
    moreover have "int (replacer_size r) < 2 ^ 63" using size by (simp flip: of_nat_less_iff)
    ultimately show ?thesis by linarith
  next
    case False
    then have "size_t_cast f = nat f" using hi by (simp add: size_t_cast_nonneg)
    then show ?thesis using a False by linarith
  qed
  then show "RecordAccess r f = Inl InvalidFrameId"
    using RecordAccess_raises_iff [OF inv] by simp
next
  assume a: "0 \<le> f \<and> f < int (replacer_size r)"
  then have "size_t_cast f = nat f" using hi by (simp add: size_t_cast_nonneg)
  then have "\<not> replacer_size r < size_t_cast f" using a by linarith
  from RecordAccess_history [OF inv this]
  show "\<exists>r' n'. RecordAccess r f = Inr r' \<and> node_store r' f = Some n' \<and>
               history n' =
                 (let h = (case node_store r f of None \<Rightarrow> [] | Some n \<Rightarrow> history n)
                            @ [CurrentTimestamp (time_base_line r)]
                  in if replacer_k r < length h then tl h else h) \<and>
               last (history n') = CurrentTimestamp (time_base_line r)"
    by blast
qed

lemma RecordAccess_frame_id_check_example:
  "RecordAccess example_replacer (- 1) = Inl InvalidFrameId \<and>
   RecordAccess example_replacer 8 = Inl InvalidFrameId \<and>
   (\<exists>r' n'. RecordAccess example_replacer 2 = Inr r' \<and> node_store r' 2 = Some n' \<and>
      history n' = [4, 5, 7])"
proof -
  have inv: "replacer_inv example_replacer" by (rule replacer_inv_example)
  have size: "replacer_size example_replacer < 2 ^ 63" by (simp add: example_replacer_def)
  have a: "RecordAccess example_replacer (- 1) = Inl InvalidFrameId"
    using RecordAccess_frame_id_check [OF inv _ _ size, of "- 1"] by simp
  have b: "RecordAccess example_replacer 8 = Inl InvalidFrameId"
    using RecordAccess_frame_id_check [OF inv _ _ size, of 8] by (simp add: example_replacer_def)
  have c: "\<exists>r' n'. RecordAccess example_replacer 2 = Inr r' \<and> node_store r' 2 = Some n' \<and>
      history n' = [4, 5, 7]"
  proof -
    from RecordAccess_frame_id_check [OF inv _ _ size, of 2]
    obtain r' n' where r: "RecordAccess example_replacer 2 = Inr r'" "node_store r' 2 = Some n'"
      and h: "history n' =
                 (let h = (case node_store example_replacer 2 of None \<Rightarrow> [] | Some n \<Rightarrow> history n)
                            @ [CurrentTimestamp (time_base_line example_replacer)]
                  in if replacer_k example_replacer < length h then tl h else h)"
      by (auto simp: example_replacer_def)
    have "history n' = [4, 5, 7]"
      unfolding h by (simp add: example_replacer_def CurrentTimestamp_def Let_def)
    with r show ?thesis by blast
  qed
  from a b c show ?thesis by blast
qed

text \<open>
  Claim C2 says that \<open>RecordAccess\<close> raises \<open>InvalidFrameId\<close> if and only if
  \<open>frame_id \<ge> pool_size\<close>. The frames of a replacer of 7 frames are 0 to 6. The
  guard of \<open>RecordAccess\<close> is \<open>static_cast<size_t>(frame_id) > replacer_size_\<close>, so
  on a new replacer of 7 frames the call with frame id 7 does not raise: it returns
  with a record for frame 7 in \<open>node_store\<close>, holding the new timestamp. Frame id 8
  raises.
\<close>

theorem RecordAccess_accepts_replacer_size:
  "RecordAccess (LRUKReplacer_new 7 2 0) 7 =
     Inr \<lparr> node_store = [7 \<mapsto> \<lparr> history = [1], node_k = 2, fid = 7, is_evictable = False \<rparr>],
           st = [], replacer_size = 7, replacer_k = 2, time_base_line = 1 \<rparr> \<and>
   RecordAccess (LRUKReplacer_new 7 2 0) 8 = Inl InvalidFrameId"
  by (simp add: RecordAccess_def LRUKReplacer_new_def size_t_cast_def Let_def
      LRUKNode_new_def Add_def GetEvictable_def CurrentTimestamp_def)

section \<open>Effects of the replacer's operations\<close>

lemma SetEvictable_untracked: "node_store r f = None \<Longrightarrow> SetEvictable r f b = Inr r"
  by (simp add: SetEvictable_def)

lemma SetEvictable_effect:
  assumes inv: "replacer_inv r" and n: "node_store r f = Some n"
  shows "\<exists>r'. SetEvictable r f b = Inr r' \<and>
           node_store r' = (node_store r)(f \<mapsto> n\<lparr> is_evictable := b \<rparr>) \<and>
           time_base_line r' = time_base_line r \<and> replacer_size r' = replacer_size r \<and>
           replacer_k r' = replacer_k r \<and> replacer_inv r'"
proof -
  from SetEvictable_succeeds [OF inv] obtain r' where r': "SetEvictable r f b = Inr r'" by blast
  have inv': "replacer_inv r'" by (rule replacer_inv_SetEvictable [OF inv r'])
  from inv n have hn: "history n \<noteq> []" by (auto simp: replacer_inv_def)
  have "node_store r' = (node_store r)(f \<mapsto> n\<lparr> is_evictable := b \<rparr>) \<and>
        time_base_line r' = time_base_line r \<and> replacer_size r' = replacer_size r \<and>
        replacer_k r' = replacer_k r"
  proof (cases "is_evictable n = b")
    case True
    then have "r' = r" using r' n by (simp add: SetEvictable_def GetEvictable_def)
    moreover have "n\<lparr> is_evictable := b \<rparr> = n" using True by simp
    ultimately show ?thesis using n by (simp add: fun_upd_idem)
  next
    case False
    then show ?thesis using r' n hn
      by (auto simp: SetEvictable_def GetEvictable_def FirstTime_def Let_def
          SetEvictable_node_def split: if_splits)
  qed
  with r' inv' show ?thesis by blast
qed

lemma replacer_inv_index:
  assumes "replacer_inv r"
  shows "(d, t, f) \<in> set (st r) \<longleftrightarrow>
     (\<exists>n. node_store r f = Some n \<and> is_evictable n \<and> d = GetDistance n \<and> t = hd (history n))"
  using assms by (simp add: replacer_inv_def)

lemma replacer_inv_not_indexed:
  assumes inv: "replacer_inv r" and no: "\<forall>n. node_store r f = Some n \<longrightarrow> \<not> is_evictable n"
  shows "\<forall>e \<in> set (st r). snd (snd e) \<noteq> f"
proof
  fix e assume e: "e \<in> set (st r)"
  obtain d t g where eq: "e = (d, t, g)" by (cases e)
  from e have "\<exists>n. node_store r g = Some n \<and> is_evictable n \<and> d = GetDistance n \<and> t = hd (history n)"
    unfolding eq replacer_inv_index [OF inv] .
  then show "snd (snd e) \<noteq> f" using no eq by auto
qed

lemma Remove_effect:
  assumes inv: "replacer_inv r" and n: "node_store r f = Some n" and ev: "is_evictable n"
  shows "\<exists>r'. Remove r f = Inr r' \<and> node_store r' = (node_store r)(f := None) \<and>
           time_base_line r' = time_base_line r \<and> replacer_size r' = replacer_size r \<and>
           replacer_k r' = replacer_k r \<and> replacer_inv r'"
proof -
  from Remove_succeeds [OF inv] obtain r' where r': "Remove r f = Inr r'" by blast
  have inv': "replacer_inv r'" by (rule replacer_inv_Remove [OF inv r'])
  from inv n have hn: "history n \<noteq> []" by (auto simp: replacer_inv_def)
  have "node_store r' = (node_store r)(f := None) \<and>
        time_base_line r' = time_base_line r \<and> replacer_size r' = replacer_size r \<and>
        replacer_k r' = replacer_k r"
    using r' n ev hn by (auto simp: Remove_def GetEvictable_def FirstTime_def)
  with r' inv' show ?thesis by blast
qed

section \<open>Buffer pool manager: UnpinPage\<close>

lemma bpm_inv_replacer: "bpm_inv s \<Longrightarrow> replacer_inv (replacer s)"
  by (simp add: bpm_inv_def)

lemma bpm_inv_page_id:
  "bpm_inv s \<Longrightarrow> fmlookup (page_table s) pid = Some f \<Longrightarrow> page_id (pages s f) = pid"
  unfolding bpm_inv_def by blast

lemma bpm_inv_tracked:
  "bpm_inv s \<Longrightarrow> fmlookup (page_table s) pid = Some f \<Longrightarrow>
     \<exists>n. node_store (replacer s) f = Some n"
  unfolding bpm_inv_def by blast

lemma bpm_inv_pin_sync:
  "bpm_inv s \<Longrightarrow> node_store (replacer s) f = Some n \<Longrightarrow>
     is_evictable n \<longleftrightarrow> pin_count (pages s f) = 0"
  unfolding bpm_inv_def by blast

lemma bpm_inv_pin_nonneg: "bpm_inv s \<Longrightarrow> 0 \<le> pin_count (pages s f)"
  unfolding bpm_inv_def by blast

text \<open>
  Claim C5. In every state that satisfies the manager's invariant, \<open>UnpinPage\<close>
  returns false, with the state as it was, when the page is not in the page table or
  the pin count of its frame is not positive. Otherwise it returns true, the pin count
  of the frame is one less, the dirty flag of the frame is its earlier value or'ed
  with \<open>is_dirty\<close> (a dirty frame stays dirty), and nothing else changes except the
  replacer: when the new pin count is 0 the replacer is the result of
  \<open>SetEvictable(frame, true)\<close>, in which the frame's record is evictable and its
  key is in the index; when the new pin count is not 0 the replacer is unchanged.
\<close>

theorem UnpinPage_effect:
  assumes inv: "bpm_inv s"
  shows "(fmlookup (page_table s) pid = None \<longrightarrow> UnpinPage s pid dirty = Inr (False, s)) \<and>
         (\<forall>f. fmlookup (page_table s) pid = Some f \<longrightarrow>
            (pin_count (pages s f) \<le> 0 \<longrightarrow> UnpinPage s pid dirty = Inr (False, s)) \<and>
            (0 < pin_count (pages s f) \<longrightarrow>
               (\<exists>r'. UnpinPage s pid dirty =
                    Inr (True,
                         s\<lparr> pages := (pages s)(f := (pages s f)
                               \<lparr> pin_count := pin_count (pages s f) - 1,
                                 is_dirty := (is_dirty (pages s f) \<or> dirty) \<rparr>),
                            replacer := r' \<rparr>) \<and>
                  (pin_count (pages s f) - 1 = 0 \<longrightarrow>
                     SetEvictable (replacer s) f True = Inr r' \<and>
                     (\<exists>n'. node_store r' f = Some n' \<and> is_evictable n' \<and>
                        (GetDistance n', hd (history n'), f) \<in> set (st r'))) \<and>
                  (pin_count (pages s f) - 1 \<noteq> 0 \<longrightarrow> r' = replacer s))))"
proof (intro conjI allI impI)
  assume "fmlookup (page_table s) pid = None"
  then show "UnpinPage s pid dirty = Inr (False, s)" by (simp add: UnpinPage_def)
next
  fix f assume "fmlookup (page_table s) pid = Some f" "pin_count (pages s f) \<le> 0"
  then show "UnpinPage s pid dirty = Inr (False, s)" by (simp add: UnpinPage_def)
next
  fix f assume f: "fmlookup (page_table s) pid = Some f" and pin: "0 < pin_count (pages s f)"
  from inv have rinv: "replacer_inv (replacer s)" by (simp add: bpm_inv_def)
  from bpm_inv_tracked [OF inv f] obtain n where n: "node_store (replacer s) f = Some n" ..
  let ?P = "\<lambda>r'. UnpinPage s pid dirty =
                    Inr (True,
                         s\<lparr> pages := (pages s)(f := (pages s f)
                               \<lparr> pin_count := pin_count (pages s f) - 1,
                                 is_dirty := (is_dirty (pages s f) \<or> dirty) \<rparr>),
                            replacer := r' \<rparr>) \<and>
                  (pin_count (pages s f) - 1 = 0 \<longrightarrow>
                     SetEvictable (replacer s) f True = Inr r' \<and>
                     (\<exists>n'. node_store r' f = Some n' \<and> is_evictable n' \<and>
                        (GetDistance n', hd (history n'), f) \<in> set (st r'))) \<and>
                  (pin_count (pages s f) - 1 \<noteq> 0 \<longrightarrow> r' = replacer s)"
  show "\<exists>r'. ?P r'"
  proof (cases "pin_count (pages s f) - 1 = 0")
    case True
    from SetEvictable_effect [OF rinv n, of True] obtain r' where
      r': "SetEvictable (replacer s) f True = Inr r'"
      and ns: "node_store r' = (node_store (replacer s))(f \<mapsto> n\<lparr> is_evictable := True \<rparr>)"
      and inv': "replacer_inv r'"
      by blast
    have idx: "(GetDistance (n\<lparr> is_evictable := True \<rparr>), hd (history (n\<lparr> is_evictable := True \<rparr>)), f)
        \<in> set (st r')"
      unfolding replacer_inv_index [OF inv'] using ns by simp
    have "?P r'"
      using f pin True r' ns idx by (simp add: UnpinPage_def Let_def)
    then show ?thesis ..
  next
    case False
    have "?P (replacer s)"
      using f pin False by (simp add: UnpinPage_def Let_def)
    then show ?thesis ..
  qed
qed

text \<open>
  Claim C10. Whenever \<open>UnpinPage\<close> returns false, the state it leaves is the state
  it was called in: no pin count, no dirty flag and no part of the replacer changes,
  whatever \<open>is_dirty\<close> is.
\<close>

theorem UnpinPage_failure_atomic:
  assumes "UnpinPage s pid dirty = Inr (False, s')"
  shows "s' = s"
  using assms
  by (auto simp: UnpinPage_def Let_def split: option.splits if_splits sum.splits)

text \<open>
  Claim C6. \<open>FlushPage\<close> returns false, changing nothing, when the page is not in
  the page table. When the page table maps the page to a frame, it returns true, the
  disk manager receives one write of the frame's bytes under that page id (the write
  log grows by exactly that entry and the disk holds those bytes), and the frame's
  dirty flag is false afterwards. Nothing in this depends on the dirty flag before
  the call: the write happens for a clean frame too.
\<close>

theorem FlushPage_effect:
  "(fmlookup (page_table s) pid = None \<longrightarrow> FlushPage s pid = (False, s)) \<and>
   (\<forall>f. fmlookup (page_table s) pid = Some f \<longrightarrow>
      FlushPage s pid =
        (True,
         s\<lparr> disk_manager := WritePage (disk_manager s) pid (data (pages s f)),
            pages := (pages s)(f := (pages s f)\<lparr> is_dirty := False \<rparr>) \<rparr>) \<and>
      write_log (disk_manager (snd (FlushPage s pid))) =
        write_log (disk_manager s) @ [(pid, data (pages s f))] \<and>
      disk_pages (disk_manager (snd (FlushPage s pid))) pid = data (pages s f) \<and>
      \<not> is_dirty (pages (snd (FlushPage s pid)) f))"
  by (simp add: FlushPage_def WritePage_def)

lemma bpm_inv_example: "bpm_inv example_bpm"
  unfolding bpm_inv_def replacer_inv_def example_bpm_def
  by (auto simp: GetDistance_def size_t_cast_def Page_new_def split: if_splits)

theorem UnpinPage_effect_witness:
  "UnpinPage example_bpm 5 True = Inr (False, example_bpm) \<and>
   UnpinPage example_bpm 1 True = Inr (False, example_bpm) \<and>
   (\<exists>s'. UnpinPage example_bpm 0 True = Inr (True, s') \<and> pin_count (pages s' 0) = 0 \<and>
      is_dirty (pages s' 0) \<and>
      (\<exists>n'. node_store (replacer s') 0 = Some n' \<and> is_evictable n'))"
proof -
  note t = UnpinPage_effect [OF bpm_inv_example, of _ True]
  have a: "UnpinPage example_bpm 5 True = Inr (False, example_bpm)"
    using t [of 5] by (simp add: example_bpm_def)
  have b: "UnpinPage example_bpm 1 True = Inr (False, example_bpm)"
    using t [of 1] by (simp add: example_bpm_def)
  have l: "fmlookup (page_table example_bpm) 0 = Some 0" by (simp add: example_bpm_def)
  have p: "pin_count (pages example_bpm 0) = 1" by (simp add: example_bpm_def)
  from t [of 0] l p obtain r' where
    "UnpinPage example_bpm 0 True =
       Inr (True, example_bpm\<lparr> pages := (pages example_bpm)(0 := (pages example_bpm 0)
              \<lparr> pin_count := pin_count (pages example_bpm 0) - 1,
                is_dirty := (is_dirty (pages example_bpm 0) \<or> True) \<rparr>),
            replacer := r' \<rparr>)"
    "\<exists>n'. node_store r' 0 = Some n' \<and> is_evictable n'"
    by auto
  then have c: "\<exists>s'. UnpinPage example_bpm 0 True = Inr (True, s') \<and> pin_count (pages s' 0) = 0 \<and>
      is_dirty (pages s' 0) \<and>
      (\<exists>n'. node_store (replacer s') 0 = Some n' \<and> is_evictable n')"
    using p by simp
  from a b c show ?thesis by blast
qed

theorem UnpinPage_failure_atomic_witness:
  "UnpinPage example_bpm 1 True = Inr (False, example_bpm)"
proof -
  have "UnpinPage example_bpm 1 True = Inr (False, example_bpm)"
    by (simp add: UnpinPage_def example_bpm_def)
  from UnpinPage_failure_atomic [OF this] this show ?thesis by simp
qed

theorem FlushPage_effect_witness:
  "FlushPage example_bpm 5 = (False, example_bpm) \<and>
   \<not> is_dirty (pages example_bpm 0) \<and>
   fst (FlushPage example_bpm 0) = True \<and>
   write_log (disk_manager (snd (FlushPage example_bpm 0))) = [(0, [1, 2, 3, 4])] \<and>
   disk_pages (disk_manager (snd (FlushPage example_bpm 0))) 0 = [1, 2, 3, 4]"
proof -
  have l5: "fmlookup (page_table example_bpm) 5 = None" by (simp add: example_bpm_def)
  have l0: "fmlookup (page_table example_bpm) 0 = Some 0" by (simp add: example_bpm_def)
  have c: "\<not> is_dirty (pages example_bpm 0)" by (simp add: example_bpm_def)
  from FlushPage_effect [of example_bpm 5] l5
  have a: "FlushPage example_bpm 5 = (False, example_bpm)" by simp
  note t = FlushPage_effect [of example_bpm 0, THEN conjunct2, rule_format, OF l0]
  from t have "\<exists>s'. FlushPage example_bpm 0 = (True, s')" by blast
  then have b1: "fst (FlushPage example_bpm 0) = True" by auto
  from t have b: "write_log (disk_manager (snd (FlushPage example_bpm 0))) =
       write_log (disk_manager example_bpm) @ [(0, data (pages example_bpm 0))]"
    "disk_pages (disk_manager (snd (FlushPage example_bpm 0))) 0 = data (pages example_bpm 0)"
    by blast+
  from a b1 b c show ?thesis by (simp add: example_bpm_def example_disk_def)
qed

section \<open>Buffer pool manager: the hit path of FetchPage\<close>

text \<open>
  Claim C9. When the page table maps the page to a frame (a hit) in a state that
  satisfies the manager's invariant, \<open>FetchPage\<close> returns that frame, and the state
  differs from the earlier one only in the frame's pin count, which is one greater,
  and in the replacer, which is the result of \<open>SetEvictable(frame, false)\<close>: the
  frame's record has the evictable flag off and no key in the index, every record
  keeps its history, and the timestamp counter has not advanced (\<open>RecordAccess\<close> is
  not called). The page table, the free list, the disk, the frame's bytes and its
  dirty flag are as before.
\<close>

theorem FetchPage_hit:
  assumes inv: "bpm_inv s" and hit: "fmlookup (page_table s) pid = Some f"
  shows "\<exists>r' n. FetchPage s pid =
           Inr (Some f,
                s\<lparr> pages := (pages s)(f := (pages s f)\<lparr> pin_count := pin_count (pages s f) + 1 \<rparr>),
                   replacer := r' \<rparr>) \<and>
           SetEvictable (replacer s) f False = Inr r' \<and>
           node_store (replacer s) f = Some n \<and>
           node_store r' = (node_store (replacer s))(f \<mapsto> n\<lparr> is_evictable := False \<rparr>) \<and>
           (\<forall>e \<in> set (st r'). snd (snd e) \<noteq> f) \<and>
           (\<forall>g. map_option history (node_store r' g) = map_option history (node_store (replacer s) g)) \<and>
           time_base_line r' = time_base_line (replacer s)"
proof -
  from bpm_inv_tracked [OF inv hit] obtain n where n: "node_store (replacer s) f = Some n" ..
  from SetEvictable_effect [OF bpm_inv_replacer [OF inv] n, of False] obtain r' where
    r': "SetEvictable (replacer s) f False = Inr r'"
    and ns: "node_store r' = (node_store (replacer s))(f \<mapsto> n\<lparr> is_evictable := False \<rparr>)"
    and tb: "time_base_line r' = time_base_line (replacer s)"
    and inv': "replacer_inv r'"
    by blast
  have F: "FetchPage s pid =
           Inr (Some f,
                s\<lparr> pages := (pages s)(f := (pages s f)\<lparr> pin_count := pin_count (pages s f) + 1 \<rparr>),
                   replacer := r' \<rparr>)"
    using hit r' by (simp add: FetchPage_def Let_def)
  have idx: "\<forall>e \<in> set (st r'). snd (snd e) \<noteq> f"
    by (rule replacer_inv_not_indexed [OF inv']) (simp add: ns)
  have hist: "\<forall>g. map_option history (node_store r' g) = map_option history (node_store (replacer s) g)"
    using n by (simp add: ns)
  from F r' n ns idx hist tb show ?thesis by blast
qed

theorem FetchPage_hit_witness:
  "\<exists>s'. FetchPage example_bpm 1 = Inr (Some 1, s') \<and> pin_count (pages s' 1) = 1 \<and>
      map_option history (node_store (replacer s') 1) = Some [2] \<and>
      map_option is_evictable (node_store (replacer s') 1) = Some False \<and>
      time_base_line (replacer s') = 2"
proof -
  have hit: "fmlookup (page_table example_bpm) 1 = Some 1" by (simp add: example_bpm_def)
  from FetchPage_hit [OF bpm_inv_example hit] obtain r' n where
    F: "FetchPage example_bpm 1 =
           Inr (Some 1,
                example_bpm\<lparr> pages := (pages example_bpm)(1 := (pages example_bpm 1)
                      \<lparr> pin_count := pin_count (pages example_bpm 1) + 1 \<rparr>),
                   replacer := r' \<rparr>)"
    and n: "node_store (replacer example_bpm) 1 = Some n"
    and ns: "node_store r' = (node_store (replacer example_bpm))(1 \<mapsto> n\<lparr> is_evictable := False \<rparr>)"
    and tb: "time_base_line r' = time_base_line (replacer example_bpm)"
    by blast
  have "history n = [2]" using n by (auto simp: example_bpm_def)
  then show ?thesis using F ns tb by (simp add: example_bpm_def)
qed

section \<open>Buffer pool manager: DeletePage\<close>

text \<open>
  Claim C7. In every state that satisfies the manager's invariant, \<open>DeletePage\<close>
  returns true, changing nothing, when the page is not in the page table; it returns
  false, changing nothing, when the page's frame has a positive pin count; and when
  the pin count is 0 it returns true and the state differs from the earlier one in
  that the frame's record is removed from the replacer (no record, no key in the
  index), the frame id is appended to the free list, the frame's bytes are zeroed,
  its page id is \<open>INVALID_PAGE_ID\<close>, its pin count 0 and its dirty flag false, and
  the page id is erased from the page table.
\<close>

theorem DeletePage_effect:
  assumes inv: "bpm_inv s"
  shows "(fmlookup (page_table s) pid = None \<longrightarrow> DeletePage s pid = Inr (True, s)) \<and>
         (\<forall>f. fmlookup (page_table s) pid = Some f \<longrightarrow>
            (0 < pin_count (pages s f) \<longrightarrow> DeletePage s pid = Inr (False, s)) \<and>
            (pin_count (pages s f) = 0 \<longrightarrow>
               (\<exists>r'. DeletePage s pid =
                    Inr (True,
                         s\<lparr> replacer := r',
                            free_list := free_list s @ [f],
                            pages := (pages s)(f := (pages s f)
                               \<lparr> data := replicate (length (data (pages s f))) 0,
                                 page_id := INVALID_PAGE_ID, pin_count := 0, is_dirty := False \<rparr>),
                            page_table := fmdrop pid (page_table s) \<rparr>) \<and>
                  Remove (replacer s) f = Inr r' \<and>
                  node_store r' = (node_store (replacer s))(f := None) \<and>
                  (\<forall>e \<in> set (st r'). snd (snd e) \<noteq> f))))"
proof (intro conjI allI impI)
  assume "fmlookup (page_table s) pid = None"
  then show "DeletePage s pid = Inr (True, s)" by (simp add: DeletePage_def)
next
  fix f assume "fmlookup (page_table s) pid = Some f" "0 < pin_count (pages s f)"
  then show "DeletePage s pid = Inr (False, s)" by (simp add: DeletePage_def)
next
  fix f assume f: "fmlookup (page_table s) pid = Some f" and pin: "pin_count (pages s f) = 0"
  from bpm_inv_tracked [OF inv f] obtain n where n: "node_store (replacer s) f = Some n" ..
  have ev: "is_evictable n" using bpm_inv_pin_sync [OF inv n] pin by simp
  from Remove_effect [OF bpm_inv_replacer [OF inv] n ev] obtain r' where
    r': "Remove (replacer s) f = Inr r'"
    and ns: "node_store r' = (node_store (replacer s))(f := None)"
    and inv': "replacer_inv r'"
    by blast
  have D: "DeletePage s pid =
                    Inr (True,
                         s\<lparr> replacer := r',
                            free_list := free_list s @ [f],
                            pages := (pages s)(f := (pages s f)
                               \<lparr> data := replicate (length (data (pages s f))) 0,
                                 page_id := INVALID_PAGE_ID, pin_count := 0, is_dirty := False \<rparr>),
                            page_table := fmdrop pid (page_table s) \<rparr>)"
    using f pin r' by (simp add: DeletePage_def Let_def ResetMemory_def)
  have idx: "\<forall>e \<in> set (st r'). snd (snd e) \<noteq> f"
    by (rule replacer_inv_not_indexed [OF inv']) (simp add: ns)
  from D r' ns idx
  show "\<exists>r'. DeletePage s pid =
                    Inr (True,
                         s\<lparr> replacer := r',
                            free_list := free_list s @ [f],
                            pages := (pages s)(f := (pages s f)
                               \<lparr> data := replicate (length (data (pages s f))) 0,
                                 page_id := INVALID_PAGE_ID, pin_count := 0, is_dirty := False \<rparr>),
                            page_table := fmdrop pid (page_table s) \<rparr>) \<and>
                  Remove (replacer s) f = Inr r' \<and>
                  node_store r' = (node_store (replacer s))(f := None) \<and>
                  (\<forall>e \<in> set (st r'). snd (snd e) \<noteq> f)"
    by blast
qed

theorem DeletePage_effect_witness:
  "DeletePage example_bpm 5 = Inr (True, example_bpm) \<and>
   DeletePage example_bpm 0 = Inr (False, example_bpm) \<and>
   (\<exists>s'. DeletePage example_bpm 1 = Inr (True, s') \<and> free_list s' = [1] \<and>
      fmlookup (page_table s') 1 = None \<and> node_store (replacer s') 1 = None \<and>
      pages s' 1 = Page_new 4)"
proof -
  note t = DeletePage_effect [OF bpm_inv_example]
  have a: "DeletePage example_bpm 5 = Inr (True, example_bpm)"
    using t [of 5] by (simp add: example_bpm_def)
  have b: "DeletePage example_bpm 0 = Inr (False, example_bpm)"
    using t [of 0] by (simp add: example_bpm_def)
  have l: "fmlookup (page_table example_bpm) 1 = Some 1" by (simp add: example_bpm_def)
  have p: "pin_count (pages example_bpm 1) = 0" by (simp add: example_bpm_def)
  from t [of 1] l p obtain r' where
    D: "DeletePage example_bpm 1 =
         Inr (True,
              example_bpm\<lparr> replacer := r',
                 free_list := free_list example_bpm @ [1],
                 pages := (pages example_bpm)(1 := (pages example_bpm 1)
                    \<lparr> data := replicate (length (data (pages example_bpm 1))) 0,
                      page_id := INVALID_PAGE_ID, pin_count := 0, is_dirty := False \<rparr>),
                 page_table := fmdrop 1 (page_table example_bpm) \<rparr>)"
    and ns: "node_store r' = (node_store (replacer example_bpm))(1 := None)"
    by auto
  have c: "\<exists>s'. DeletePage example_bpm 1 = Inr (True, s') \<and> free_list s' = [1] \<and>
      fmlookup (page_table s') 1 = None \<and> node_store (replacer s') 1 = None \<and>
      pages s' 1 = Page_new 4"
    unfolding D using ns by (simp add: example_bpm_def Page_new_def numeral_eq_Suc)
  from a b c show ?thesis by blast
qed

section \<open>Buffer pool manager: write-back of a dirty victim\<close>

lemma Evict_Some:
  assumes inv: "replacer_inv r0" and ev: "Evict r0 = (Some f, r)"
  shows "replacer_inv r" and "\<not> replacer_size r < size_t_cast f" and "node_store r f = None"
    and "st r0 \<noteq> []" and "\<exists>n. node_store r0 f = Some n \<and> is_evictable n"
proof -
  show ne: "st r0 \<noteq> []" using ev by (auto simp: Evict_def split: if_splits)
  from replacer_inv_Evict [OF inv] ev show "replacer_inv r" by simp
  obtain d t g where l: "last (st r0) = (d, t, g)" by (cases "last (st r0)")
  from ev ne l have g: "g = f"
    and r: "r = r0\<lparr> st := butlast (st r0), node_store := (node_store r0)(f := None) \<rparr>"
    by (auto simp: Evict_def)
  have "(d, t, f) \<in> set (st r0)" using ne l g last_in_set by metis
  then show n: "\<exists>n. node_store r0 f = Some n \<and> is_evictable n"
    unfolding replacer_inv_index [OF inv] by blast
  then show "\<not> replacer_size r < size_t_cast f"
    using inv r by (auto simp: replacer_inv_def)
  show "node_store r f = None" by (simp add: r)
qed

lemma install_replacer:
  assumes inv: "replacer_inv r" and sz: "\<not> replacer_size r < size_t_cast f"
  shows "\<exists>r1 r2. RecordAccess r f = Inr r1 \<and> SetEvictable r1 f False = Inr r2 \<and> replacer_inv r2"
proof -
  from RecordAccess_succeeds [OF inv sz] obtain r1 where r1: "RecordAccess r f = Inr r1" ..
  have inv1: "replacer_inv r1" by (rule replacer_inv_RecordAccess [OF inv r1])
  from SetEvictable_succeeds [OF inv1] obtain r2 where r2: "SetEvictable r1 f False = Inr r2" ..
  have "replacer_inv r2" by (rule replacer_inv_SetEvictable [OF inv1 r2])
  with r1 r2 show ?thesis by blast
qed

lemma take_frame_evict_dirty:
  assumes nofree: "free_list s = []"
    and ev: "Evict (replacer s) = (Some f, r)"
    and dirty: "is_dirty (pages s f)"
    and resident: "fmlookup (page_table s) (page_id (pages s f)) = Some f"
  shows "take_frame err s =
     Inr (f, s\<lparr> replacer := r,
              disk_manager := WritePage (disk_manager s) (page_id (pages s f)) (data (pages s f)),
              page_table := fmdrop (page_id (pages s f)) (page_table s),
              pages := (pages s)(f := (pages s f)
                 \<lparr> data := replicate (length (data (pages s f))) 0,
                   page_id := INVALID_PAGE_ID, pin_count := 0, is_dirty := False \<rparr>) \<rparr>)"
  using assms
  by (simp add: take_frame_def FlushPage_def Let_def ResetMemory_def)

text \<open>
  The write-back of a dirty victim that hosts a resident page. Take a state that
  satisfies the manager's invariant, in which the free list is empty and the
  replacer's \<open>Evict\<close> returns the frame \<open>f\<close>, where \<open>f\<close> is dirty and the page table
  maps the page id of \<open>f\<close> to \<open>f\<close>. Then the call of \<open>FlushPage\<close> that \<open>NewPage\<close> and
  \<open>FetchPage\<close> make returns true; in the state it leaves, the disk has received the
  bytes of \<open>f\<close> under its page id (one entry appended to the write log), the dirty
  flag of \<open>f\<close> is false, and the mapping and the bytes of \<open>f\<close> are still there; only
  then is the mapping erased and the frame reset.
\<close>

lemma evict_writes_back_dirty:
  assumes inv: "bpm_inv s"
    and nofree: "free_list s = []"
    and ev: "Evict (replacer s) = (Some f, r)"
    and dirty: "is_dirty (pages s f)"
    and resident: "fmlookup (page_table s) (page_id (pages s f)) = Some f"
  shows "(\<exists>s2. FlushPage (s\<lparr> replacer := r \<rparr>) (page_id (pages s f)) = (True, s2) \<and>
            write_log (disk_manager s2) =
              write_log (disk_manager s) @ [(page_id (pages s f), data (pages s f))] \<and>
            disk_pages (disk_manager s2) (page_id (pages s f)) = data (pages s f) \<and>
            \<not> is_dirty (pages s2 f) \<and>
            fmlookup (page_table s2) (page_id (pages s f)) = Some f \<and>
            data (pages s2 f) = data (pages s f) \<and>
            take_frame NoFrameNewPage s =
              Inr (f, s2\<lparr> page_table := fmdrop (page_id (pages s f)) (page_table s2),
                         pages := (pages s2)(f := (pages s2 f)
                           \<lparr> data := replicate (length (data (pages s f))) 0,
                             page_id := INVALID_PAGE_ID, pin_count := 0, is_dirty := False \<rparr>) \<rparr>)) \<and>
         (\<exists>s'. NewPage s = Inr (Some (next_page_id s, f), s') \<and>
            disk_manager s' =
              WritePage (disk_manager s) (page_id (pages s f)) (data (pages s f)) \<and>
            page_table s' =
              fmupd (next_page_id s) f (fmdrop (page_id (pages s f)) (page_table s)) \<and>
            data (pages s' f) = replicate (length (data (pages s f))) 0 \<and>
            \<not> is_dirty (pages s' f)) \<and>
         (\<forall>pid. fmlookup (page_table s) pid = None \<and> 0 \<le> pid \<longrightarrow>
            (\<exists>s'. FetchPage s pid = Inr (Some f, s') \<and>
               disk_manager s' =
                 WritePage (disk_manager s) (page_id (pages s f)) (data (pages s f)) \<and>
               page_table s' = fmupd pid f (fmdrop (page_id (pages s f)) (page_table s)) \<and>
               data (pages s' f) = ReadPage (disk_manager s') pid \<and>
               \<not> is_dirty (pages s' f)))"
proof -
  let ?vp = "page_id (pages s f)" and ?vd = "data (pages s f)"
  have rinv: "replacer_inv (replacer s)" by (rule bpm_inv_replacer [OF inv])
  note E = Evict_Some [OF rinv ev]
  from install_replacer [OF E(1) E(2)] obtain r1 r2 where
    r1: "RecordAccess r f = Inr r1" and r2: "SetEvictable r1 f False = Inr r2"
    by blast
  have size: "Size (replacer s) \<noteq> 0" using E(4) by (simp add: Size_def)
  note T = take_frame_evict_dirty [OF nofree ev dirty resident]
  let ?s2 = "s\<lparr> replacer := r, disk_manager := WritePage (disk_manager s) ?vp ?vd,
                 pages := (pages s)(f := (pages s f)\<lparr> is_dirty := False \<rparr>) \<rparr>"
  have F: "FlushPage (s\<lparr> replacer := r \<rparr>) ?vp = (True, ?s2)"
    using resident by (simp add: FlushPage_def)
  have part1: "\<exists>s2. FlushPage (s\<lparr> replacer := r \<rparr>) ?vp = (True, s2) \<and>
            write_log (disk_manager s2) = write_log (disk_manager s) @ [(?vp, ?vd)] \<and>
            disk_pages (disk_manager s2) ?vp = ?vd \<and>
            \<not> is_dirty (pages s2 f) \<and>
            fmlookup (page_table s2) ?vp = Some f \<and>
            data (pages s2 f) = ?vd \<and>
            take_frame NoFrameNewPage s =
              Inr (f, s2\<lparr> page_table := fmdrop ?vp (page_table s2),
                         pages := (pages s2)(f := (pages s2 f)
                           \<lparr> data := replicate (length ?vd) 0,
                             page_id := INVALID_PAGE_ID, pin_count := 0, is_dirty := False \<rparr>) \<rparr>)"
    apply (rule exI [of _ ?s2])
    using F resident by (simp add: T WritePage_def)
  have part2: "\<exists>s'. NewPage s = Inr (Some (next_page_id s, f), s') \<and>
            disk_manager s' = WritePage (disk_manager s) ?vp ?vd \<and>
            page_table s' = fmupd (next_page_id s) f (fmdrop ?vp (page_table s)) \<and>
            data (pages s' f) = replicate (length ?vd) 0 \<and>
            \<not> is_dirty (pages s' f)"
    using size r1 r2 by (simp add: NewPage_def T AllocatePage_def Let_def)
  have part3: "\<exists>s'. FetchPage s pid = Inr (Some f, s') \<and>
               disk_manager s' = WritePage (disk_manager s) ?vp ?vd \<and>
               page_table s' = fmupd pid f (fmdrop ?vp (page_table s)) \<and>
               data (pages s' f) = ReadPage (disk_manager s') pid \<and>
               \<not> is_dirty (pages s' f)"
    if "fmlookup (page_table s) pid = None \<and> 0 \<le> pid" for pid
    using that size r1 r2 by (simp add: FetchPage_def T Let_def)
  from part1 part2 part3 show ?thesis by blast
qed

lemma evict_writes_back_dirty_example:
  "(\<exists>s'. NewPage example_bpm = Inr (Some (2, 1), s') \<and>
      write_log (disk_manager s') = [(1, [5, 6, 7, 8])] \<and>
      fmlookup (page_table s') 1 = None \<and> data (pages s' 1) = [0, 0, 0, 0]) \<and>
   (\<exists>s'. FetchPage example_bpm 7 = Inr (Some 1, s') \<and>
      write_log (disk_manager s') = [(1, [5, 6, 7, 8])] \<and>
      fmlookup (page_table s') 1 = None)"
proof -
  have nofree: "free_list example_bpm = []" by (simp add: example_bpm_def)
  have ev: "Evict (replacer example_bpm) =
      (Some 1, (replacer example_bpm)\<lparr> st := [],
         node_store := (node_store (replacer example_bpm))(1 := None) \<rparr>)"
    by (simp add: Evict_def example_bpm_def)
  have dirty: "is_dirty (pages example_bpm 1)" by (simp add: example_bpm_def)
  have resident: "fmlookup (page_table example_bpm) (page_id (pages example_bpm 1)) = Some 1"
    by (simp add: example_bpm_def)
  note t = evict_writes_back_dirty [OF bpm_inv_example nofree ev dirty resident]
  from t obtain s' where n: "NewPage example_bpm = Inr (Some (next_page_id example_bpm, 1), s')"
    "disk_manager s' =
       WritePage (disk_manager example_bpm) (page_id (pages example_bpm 1)) (data (pages example_bpm 1))"
    "page_table s' =
       fmupd (next_page_id example_bpm) 1 (fmdrop (page_id (pages example_bpm 1)) (page_table example_bpm))"
    "data (pages s' 1) = replicate (length (data (pages example_bpm 1))) 0"
    by blast
  have a: "\<exists>s'. NewPage example_bpm = Inr (Some (2, 1), s') \<and>
      write_log (disk_manager s') = [(1, [5, 6, 7, 8])] \<and>
      fmlookup (page_table s') 1 = None \<and> data (pages s' 1) = [0, 0, 0, 0]"
    using n by (simp add: example_bpm_def example_disk_def WritePage_def numeral_eq_Suc)
  have l: "fmlookup (page_table example_bpm) 7 = None \<and> (0::int) \<le> 7" by (simp add: example_bpm_def)
  from t l obtain s'' where f: "FetchPage example_bpm 7 = Inr (Some 1, s'')"
    "disk_manager s'' =
       WritePage (disk_manager example_bpm) (page_id (pages example_bpm 1)) (data (pages example_bpm 1))"
    "page_table s'' =
       fmupd 7 1 (fmdrop (page_id (pages example_bpm 1)) (page_table example_bpm))"
    by blast
  have b: "\<exists>s'. FetchPage example_bpm 7 = Inr (Some 1, s') \<and>
      write_log (disk_manager s') = [(1, [5, 6, 7, 8])] \<and>
      fmlookup (page_table s') 1 = None"
    using f by (simp add: example_bpm_def example_disk_def WritePage_def)
  from a b show ?thesis by blast
qed

section \<open>Page guards\<close>

lemma UnpinPage_pinned:
  assumes inv: "bpm_inv s" and f: "fmlookup (page_table s) pid = Some f"
    and pin: "0 < pin_count (pages s f)"
  shows "\<exists>r'. UnpinPage s pid dirty =
           Inr (True,
                s\<lparr> pages := (pages s)(f := (pages s f)
                      \<lparr> pin_count := pin_count (pages s f) - 1,
                        is_dirty := (is_dirty (pages s f) \<or> dirty) \<rparr>),
                   replacer := r' \<rparr>)"
proof (cases "pin_count (pages s f) - 1 = 0")
  case True
  from SetEvictable_succeeds [OF bpm_inv_replacer [OF inv]] obtain r' where
    "SetEvictable (replacer s) f True = Inr r'" by blast
  then have "UnpinPage s pid dirty =
           Inr (True,
                s\<lparr> pages := (pages s)(f := (pages s f)
                      \<lparr> pin_count := pin_count (pages s f) - 1,
                        is_dirty := (is_dirty (pages s f) \<or> dirty) \<rparr>),
                   replacer := r' \<rparr>)"
    using f pin True by (simp add: UnpinPage_def Let_def)
  then show ?thesis ..
next
  case False
  have "UnpinPage s pid dirty =
           Inr (True,
                s\<lparr> pages := (pages s)(f := (pages s f)
                      \<lparr> pin_count := pin_count (pages s f) - 1,
                        is_dirty := (is_dirty (pages s f) \<or> dirty) \<rparr>),
                   replacer := replacer s \<rparr>)"
    using f pin False by (simp add: UnpinPage_def Let_def)
  then show ?thesis ..
qed

lemma CLear_idem [simp]: "CLear (CLear g) = CLear g"
  by (simp add: CLear_def)

lemma BasicPageGuard_Drop_empty:
  assumes "guard_page (guards sys a) = None"
  shows "BasicPageGuard_Drop a sys = Inr (sys\<lparr> guards := (guards sys)(a := CLear (guards sys a)) \<rparr>)"
  using assms by (simp add: BasicPageGuard_Drop_def)

lemma BasicPageGuard_Drop_holding:
  assumes inv: "bpm_inv (bpm sys)"
    and h1: "guard_bpm (guards sys a)" and h2: "guard_page (guards sys a) = Some f"
    and resident: "fmlookup (page_table (bpm sys)) (page_id (pages (bpm sys) f)) = Some f"
    and pin: "0 < pin_count (pages (bpm sys) f)"
  shows "\<exists>r'. BasicPageGuard_Drop a sys =
           Inr (sys\<lparr> bpm := (bpm sys)\<lparr> pages := (pages (bpm sys))(f := (pages (bpm sys) f)
                          \<lparr> pin_count := pin_count (pages (bpm sys) f) - 1,
                            is_dirty := (is_dirty (pages (bpm sys) f) \<or> guard_is_dirty (guards sys a)) \<rparr>),
                        replacer := r' \<rparr>,
                    guards := (guards sys)(a := CLear (guards sys a)) \<rparr>)"
proof -
  from UnpinPage_pinned [OF inv resident pin, of "guard_is_dirty (guards sys a)"]
  obtain r' where
    "UnpinPage (bpm sys) (page_id (pages (bpm sys) f)) (guard_is_dirty (guards sys a)) =
       Inr (True,
            (bpm sys)\<lparr> pages := (pages (bpm sys))(f := (pages (bpm sys) f)
                  \<lparr> pin_count := pin_count (pages (bpm sys) f) - 1,
                    is_dirty := (is_dirty (pages (bpm sys) f) \<or> guard_is_dirty (guards sys a)) \<rparr>),
               replacer := r' \<rparr>)" ..
  then have "BasicPageGuard_Drop a sys =
           Inr (sys\<lparr> bpm := (bpm sys)\<lparr> pages := (pages (bpm sys))(f := (pages (bpm sys) f)
                          \<lparr> pin_count := pin_count (pages (bpm sys) f) - 1,
                            is_dirty := (is_dirty (pages (bpm sys) f) \<or> guard_is_dirty (guards sys a)) \<rparr>),
                        replacer := r' \<rparr>,
                    guards := (guards sys)(a := CLear (guards sys a)) \<rparr>)"
    using h1 h2 by (simp add: BasicPageGuard_Drop_def)
  then show ?thesis ..
qed

lemma Drop_cleared_noop:
  assumes "sys1 = sys0\<lparr> guards := (guards sys0)(a := CLear g) \<rparr>"
  shows "BasicPageGuard_Drop a sys1 = Inr sys1" "ReadPageGuard_Drop a sys1 = Inr sys1"
    "WritePageGuard_Drop a sys1 = Inr sys1"
  unfolding assms
  by (simp_all add: BasicPageGuard_Drop_def ReadPageGuard_Drop_def WritePageGuard_Drop_def CLear_def)

lemma bpm_inv_latch:
  assumes "bpm_inv s"
  shows "bpm_inv (s\<lparr> pages := (pages s)(f := (pages s f)\<lparr> readers := n \<rparr>) \<rparr>)"
    "bpm_inv (s\<lparr> pages := (pages s)(f := (pages s f)\<lparr> writer := w \<rparr>) \<rparr>)"
  using assms by (auto simp: bpm_inv_def)

text \<open>
  Dropping a guard whose frame hosts a resident page. Take a guard that holds a frame:
  \<open>bpm_\<close> is not null, \<open>page_\<close> points to the frame \<open>f\<close>, the page table maps the
  page id of \<open>f\<close> to \<open>f\<close> and \<open>f\<close> is pinned, in a state that satisfies the
  manager's invariant. Then \<open>Drop\<close> succeeds and leaves a state in which the pin
  count of \<open>f\<close> is one less and the guard holds nothing; \<open>Drop\<close> again, and the
  destructor, leave that state as it is. For a \<open>ReadPageGuard\<close> whose reader latch
  is held the number of readers is one less after the first \<open>Drop\<close>; for a
  \<open>WritePageGuard\<close> whose writer latch is held the writer latch is free after it.
\<close>

lemma guard_Drop_idempotent:
  assumes inv: "bpm_inv (bpm sys)"
    and h1: "guard_bpm (guards sys a)" and h2: "guard_page (guards sys a) = Some f"
    and resident: "fmlookup (page_table (bpm sys)) (page_id (pages (bpm sys) f)) = Some f"
    and pin: "0 < pin_count (pages (bpm sys) f)"
  shows "(\<exists>sys1. BasicPageGuard_Drop a sys = Inr sys1 \<and>
            pin_count (pages (bpm sys1) f) = pin_count (pages (bpm sys) f) - 1 \<and>
            readers (pages (bpm sys1) f) = readers (pages (bpm sys) f) \<and>
            writer (pages (bpm sys1) f) = writer (pages (bpm sys) f) \<and>
            guard_page (guards sys1 a) = None \<and>
            BasicPageGuard_Drop a sys1 = Inr sys1 \<and>
            BasicPageGuard_destroy a sys1 = Inr sys1 \<and>
            BasicPageGuard_destroy a sys = Inr sys1) \<and>
         (0 < readers (pages (bpm sys) f) \<longrightarrow>
            (\<exists>sys1. ReadPageGuard_Drop a sys = Inr sys1 \<and>
               pin_count (pages (bpm sys1) f) = pin_count (pages (bpm sys) f) - 1 \<and>
               readers (pages (bpm sys1) f) = readers (pages (bpm sys) f) - 1 \<and>
               guard_page (guards sys1 a) = None \<and>
               ReadPageGuard_Drop a sys1 = Inr sys1 \<and>
               ReadPageGuard_destroy a sys1 = Inr sys1 \<and>
               ReadPageGuard_destroy a sys = Inr sys1)) \<and>
         (writer (pages (bpm sys) f) \<longrightarrow>
            (\<exists>sys1. WritePageGuard_Drop a sys = Inr sys1 \<and>
               pin_count (pages (bpm sys1) f) = pin_count (pages (bpm sys) f) - 1 \<and>
               \<not> writer (pages (bpm sys1) f) \<and>
               guard_page (guards sys1 a) = None \<and>
               WritePageGuard_Drop a sys1 = Inr sys1 \<and>
               WritePageGuard_destroy a sys1 = Inr sys1 \<and>
               WritePageGuard_destroy a sys = Inr sys1))"
proof (intro conjI impI)
  from BasicPageGuard_Drop_holding [OF inv h1 h2 resident pin] obtain r' where
    D: "BasicPageGuard_Drop a sys =
           Inr (sys\<lparr> bpm := (bpm sys)\<lparr> pages := (pages (bpm sys))(f := (pages (bpm sys) f)
                          \<lparr> pin_count := pin_count (pages (bpm sys) f) - 1,
                            is_dirty := (is_dirty (pages (bpm sys) f) \<or> guard_is_dirty (guards sys a)) \<rparr>),
                        replacer := r' \<rparr>,
                    guards := (guards sys)(a := CLear (guards sys a)) \<rparr>)"
    (is "_ = Inr ?sys1") ..
  have again: "BasicPageGuard_Drop a ?sys1 = Inr ?sys1"
    by (simp add: BasicPageGuard_Drop_def CLear_def)
  show "\<exists>sys1. BasicPageGuard_Drop a sys = Inr sys1 \<and>
            pin_count (pages (bpm sys1) f) = pin_count (pages (bpm sys) f) - 1 \<and>
            readers (pages (bpm sys1) f) = readers (pages (bpm sys) f) \<and>
            writer (pages (bpm sys1) f) = writer (pages (bpm sys) f) \<and>
            guard_page (guards sys1 a) = None \<and>
            BasicPageGuard_Drop a sys1 = Inr sys1 \<and>
            BasicPageGuard_destroy a sys1 = Inr sys1 \<and>
            BasicPageGuard_destroy a sys = Inr sys1"
    apply (rule exI [of _ ?sys1])
    using D again by (simp add: BasicPageGuard_destroy_def CLear_def)
next
  assume rd: "0 < readers (pages (bpm sys) f)"
  let ?p = "(pages (bpm sys) f)\<lparr> readers := readers (pages (bpm sys) f) - 1 \<rparr>"
  let ?sysu = "sys\<lparr> bpm := (bpm sys)\<lparr> pages := (pages (bpm sys))(f := ?p) \<rparr> \<rparr>"
  have U: "ReadPageGuard_Drop a sys = BasicPageGuard_Drop a ?sysu"
    using h2 rd by (simp add: ReadPageGuard_Drop_def RUnlatch_def)
  have inv': "bpm_inv (bpm ?sysu)" using bpm_inv_latch(1) [OF inv] by simp
  have h1': "guard_bpm (guards ?sysu a)" and h2': "guard_page (guards ?sysu a) = Some f"
    using h1 h2 by simp_all
  have res': "fmlookup (page_table (bpm ?sysu)) (page_id (pages (bpm ?sysu) f)) = Some f"
    using resident by simp
  have pin': "0 < pin_count (pages (bpm ?sysu) f)" using pin by simp
  from BasicPageGuard_Drop_holding [OF inv' h1' h2' res' pin'] obtain r' where
    D: "BasicPageGuard_Drop a ?sysu =
           Inr (?sysu\<lparr> bpm := (bpm ?sysu)\<lparr> pages := (pages (bpm ?sysu))(f := (pages (bpm ?sysu) f)
                          \<lparr> pin_count := pin_count (pages (bpm ?sysu) f) - 1,
                            is_dirty := (is_dirty (pages (bpm ?sysu) f) \<or> guard_is_dirty (guards ?sysu a)) \<rparr>),
                        replacer := r' \<rparr>,
                    guards := (guards ?sysu)(a := CLear (guards ?sysu a)) \<rparr>)"
    (is "_ = Inr ?sys1") ..
  have again: "ReadPageGuard_Drop a ?sys1 = Inr ?sys1"
    by (simp add: ReadPageGuard_Drop_def CLear_def)
  have basic: "BasicPageGuard_Drop a ?sys1 = Inr ?sys1"
    by (simp add: BasicPageGuard_Drop_def CLear_def)
  show "\<exists>sys1. ReadPageGuard_Drop a sys = Inr sys1 \<and>
               pin_count (pages (bpm sys1) f) = pin_count (pages (bpm sys) f) - 1 \<and>
               readers (pages (bpm sys1) f) = readers (pages (bpm sys) f) - 1 \<and>
               guard_page (guards sys1 a) = None \<and>
               ReadPageGuard_Drop a sys1 = Inr sys1 \<and>
               ReadPageGuard_destroy a sys1 = Inr sys1 \<and>
               ReadPageGuard_destroy a sys = Inr sys1"
    apply (rule exI [of _ ?sys1])
    using D again basic
    by (simp add: U ReadPageGuard_destroy_def BasicPageGuard_destroy_def CLear_def)
next
  assume wr: "writer (pages (bpm sys) f)"
  let ?p = "(pages (bpm sys) f)\<lparr> writer := False \<rparr>"
  let ?sysu = "sys\<lparr> bpm := (bpm sys)\<lparr> pages := (pages (bpm sys))(f := ?p) \<rparr> \<rparr>"
  have U: "WritePageGuard_Drop a sys = BasicPageGuard_Drop a ?sysu"
    using h2 wr by (simp add: WritePageGuard_Drop_def WUnlatch_def)
  have inv': "bpm_inv (bpm ?sysu)" using bpm_inv_latch(2) [OF inv] by simp
  have h1': "guard_bpm (guards ?sysu a)" and h2': "guard_page (guards ?sysu a) = Some f"
    using h1 h2 by simp_all
  have res': "fmlookup (page_table (bpm ?sysu)) (page_id (pages (bpm ?sysu) f)) = Some f"
    using resident by simp
  have pin': "0 < pin_count (pages (bpm ?sysu) f)" using pin by simp
  from BasicPageGuard_Drop_holding [OF inv' h1' h2' res' pin'] obtain r' where
    D: "BasicPageGuard_Drop a ?sysu =
           Inr (?sysu\<lparr> bpm := (bpm ?sysu)\<lparr> pages := (pages (bpm ?sysu))(f := (pages (bpm ?sysu) f)
                          \<lparr> pin_count := pin_count (pages (bpm ?sysu) f) - 1,
                            is_dirty := (is_dirty (pages (bpm ?sysu) f) \<or> guard_is_dirty (guards ?sysu a)) \<rparr>),
                        replacer := r' \<rparr>,
                    guards := (guards ?sysu)(a := CLear (guards ?sysu a)) \<rparr>)"
    (is "_ = Inr ?sys1") ..
  have again: "WritePageGuard_Drop a ?sys1 = Inr ?sys1"
    by (simp add: WritePageGuard_Drop_def CLear_def)
  have basic: "BasicPageGuard_Drop a ?sys1 = Inr ?sys1"
    by (simp add: BasicPageGuard_Drop_def CLear_def)
  show "\<exists>sys1. WritePageGuard_Drop a sys = Inr sys1 \<and>
               pin_count (pages (bpm sys1) f) = pin_count (pages (bpm sys) f) - 1 \<and>
               \<not> writer (pages (bpm sys1) f) \<and>
               guard_page (guards sys1 a) = None \<and>
               WritePageGuard_Drop a sys1 = Inr sys1 \<and>
               WritePageGuard_destroy a sys1 = Inr sys1 \<and>
               WritePageGuard_destroy a sys = Inr sys1"
    apply (rule exI [of _ ?sys1])
    using D again basic
    by (simp add: U WritePageGuard_destroy_def BasicPageGuard_destroy_def CLear_def)
qed

lemma bpm_inv_example_read: "bpm_inv (bpm example_read_sys)"
  unfolding example_read_sys_def using bpm_inv_latch(1) [OF bpm_inv_example] by simp

lemma bpm_inv_example_write: "bpm_inv (bpm example_write_sys)"
  unfolding example_write_sys_def using bpm_inv_latch(2) [OF bpm_inv_example] by simp

lemma guard_Drop_idempotent_example:
  "(\<exists>sys1. BasicPageGuard_Drop 0 example_read_sys = Inr sys1 \<and>
      pin_count (pages (bpm sys1) 0) = 0 \<and> readers (pages (bpm sys1) 0) = 1 \<and>
      BasicPageGuard_Drop 0 sys1 = Inr sys1) \<and>
   (\<exists>sys1. ReadPageGuard_Drop 0 example_read_sys = Inr sys1 \<and>
      pin_count (pages (bpm sys1) 0) = 0 \<and> readers (pages (bpm sys1) 0) = 0 \<and>
      ReadPageGuard_Drop 0 sys1 = Inr sys1) \<and>
   (\<exists>sys1. WritePageGuard_Drop 0 example_write_sys = Inr sys1 \<and>
      pin_count (pages (bpm sys1) 0) = 0 \<and> \<not> writer (pages (bpm sys1) 0) \<and>
      WritePageGuard_Drop 0 sys1 = Inr sys1)"
proof -
  have r: "guard_bpm (guards example_read_sys 0)" "guard_page (guards example_read_sys 0) = Some 0"
    "fmlookup (page_table (bpm example_read_sys)) (page_id (pages (bpm example_read_sys) 0)) = Some 0"
    "0 < pin_count (pages (bpm example_read_sys) 0)"
    by (simp_all add: example_read_sys_def example_bpm_def)
  have rv: "pin_count (pages (bpm example_read_sys) 0) = 1" "readers (pages (bpm example_read_sys) 0) = 1"
    by (simp_all add: example_read_sys_def example_bpm_def)
  have w: "guard_bpm (guards example_write_sys 0)" "guard_page (guards example_write_sys 0) = Some 0"
    "fmlookup (page_table (bpm example_write_sys)) (page_id (pages (bpm example_write_sys) 0)) = Some 0"
    "0 < pin_count (pages (bpm example_write_sys) 0)"
    by (simp_all add: example_write_sys_def example_bpm_def)
  have wv: "pin_count (pages (bpm example_write_sys) 0) = 1" "writer (pages (bpm example_write_sys) 0)"
    by (simp_all add: example_write_sys_def example_bpm_def)
  from guard_Drop_idempotent [OF bpm_inv_example_read r] rv
  have a: "\<exists>sys1. BasicPageGuard_Drop 0 example_read_sys = Inr sys1 \<and>
      pin_count (pages (bpm sys1) 0) = 0 \<and> readers (pages (bpm sys1) 0) = 1 \<and>
      BasicPageGuard_Drop 0 sys1 = Inr sys1"
    and b: "\<exists>sys1. ReadPageGuard_Drop 0 example_read_sys = Inr sys1 \<and>
      pin_count (pages (bpm sys1) 0) = 0 \<and> readers (pages (bpm sys1) 0) = 0 \<and>
      ReadPageGuard_Drop 0 sys1 = Inr sys1"
    by auto
  from guard_Drop_idempotent [OF bpm_inv_example_write w] wv
  have c: "\<exists>sys1. WritePageGuard_Drop 0 example_write_sys = Inr sys1 \<and>
      pin_count (pages (bpm sys1) 0) = 0 \<and> \<not> writer (pages (bpm sys1) 0) \<and>
      WritePageGuard_Drop 0 sys1 = Inr sys1"
    by auto
  from a b c show ?thesis by blast
qed

section \<open>Page guards: move-assignment from the guard itself\<close>

lemma BasicPageGuard_self_move_assign: "BasicPageGuard_move_assign a a sys = Inr sys"
  by (simp add: BasicPageGuard_move_assign_def)

lemma ReadPageGuard_self_move_assign: "ReadPageGuard_move_assign a a sys = ReadPageGuard_Drop a sys"
  by (simp add: ReadPageGuard_move_assign_def BasicPageGuard_move_assign_def split: sum.splits)

lemma WritePageGuard_self_move_assign: "WritePageGuard_move_assign a a sys = WritePageGuard_Drop a sys"
  by (simp add: WritePageGuard_move_assign_def BasicPageGuard_move_assign_def split: sum.splits)

text \<open>
  Claim C3 says that move-assigning a guard from itself changes nothing. That holds
  for \<open>BasicPageGuard\<close>, whose \<open>operator=\<close> tests \<open>this != &that\<close> (lemma
  \<open>BasicPageGuard_self_move_assign\<close>). The \<open>operator=\<close> of \<open>ReadPageGuard\<close> and of
  \<open>WritePageGuard\<close> have no such test and call \<open>Drop()\<close> first, so assigning such a
  guard from itself is a \<open>Drop\<close>. Evaluated on a read guard at address 0 holding
  frame 0 (pin count 1, one reader), and on a write guard in the same position: after
  \<open>g = std::move(g)\<close> the pin count is 0, the latch is released and the guard holds
  nothing; for the write guard, whose \<open>is_dirty_\<close> is set, the dirty flag of the frame
  has changed too.
\<close>

theorem self_move_assign_drops:
  "pin_count (pages (bpm example_read_sys) 0) = 1 \<and>
   readers (pages (bpm example_read_sys) 0) = 1 \<and>
   guard_page (guards example_read_sys 0) = Some 0 \<and>
   (\<exists>sys'. ReadPageGuard_move_assign 0 0 example_read_sys = Inr sys' \<and>
      pin_count (pages (bpm sys') 0) = 0 \<and>
      readers (pages (bpm sys') 0) = 0 \<and>
      guard_page (guards sys' 0) = None) \<and>
   pin_count (pages (bpm example_write_sys) 0) = 1 \<and>
   writer (pages (bpm example_write_sys) 0) \<and>
   \<not> is_dirty (pages (bpm example_write_sys) 0) \<and>
   guard_page (guards example_write_sys 0) = Some 0 \<and>
   (\<exists>sys'. WritePageGuard_move_assign 0 0 example_write_sys = Inr sys' \<and>
      pin_count (pages (bpm sys') 0) = 0 \<and>
      \<not> writer (pages (bpm sys') 0) \<and>
      is_dirty (pages (bpm sys') 0) \<and>
      guard_page (guards sys' 0) = None)"
  by (simp add: ReadPageGuard_self_move_assign WritePageGuard_self_move_assign
      ReadPageGuard_Drop_def WritePageGuard_Drop_def RUnlatch_def WUnlatch_def
      BasicPageGuard_Drop_def UnpinPage_def SetEvictable_def GetEvictable_def FirstTime_def
      SetEvictable_node_def CLear_def Let_def example_read_sys_def example_write_sys_def
      example_bpm_def)

section \<open>The manager's invariant is kept by every operation\<close>

lemma RecordAccess_untracked:
  assumes inv: "replacer_inv r" and sz: "\<not> replacer_size r < size_t_cast f"
    and un: "node_store r f = None"
  shows "\<exists>r1 n'. RecordAccess r f = Inr r1 \<and> SetEvictable r1 f False = Inr r1 \<and>
           node_store r1 = (node_store r)(f \<mapsto> n') \<and> \<not> is_evictable n' \<and>
           replacer_size r1 = replacer_size r \<and> replacer_inv r1"
proof -
  let ?n = "Add (LRUKNode_new f (replacer_k r)) (CurrentTimestamp (time_base_line r))"
  let ?r1 = "r\<lparr> node_store := (node_store r)(f \<mapsto> ?n),
                 time_base_line := CurrentTimestamp (time_base_line r) \<rparr>"
  have nev: "\<not> is_evictable ?n" by (simp add: LRUKNode_new_def)
  have R: "RecordAccess r f = Inr ?r1"
    using sz un nev by (simp add: RecordAccess_def Let_def GetEvictable_def)
  have S: "SetEvictable ?r1 f False = Inr ?r1"
    using nev by (simp add: SetEvictable_def GetEvictable_def)
  have I: "replacer_inv ?r1" by (rule replacer_inv_RecordAccess [OF inv R])
  show ?thesis
    apply (rule exI [of _ ?r1], rule exI [of _ ?n])
    using R S I nev by simp
qed

lemma bpm_inv_new:
  assumes "0 < k"
  shows "bpm_inv (BufferPoolManager_new num_frames disk k page_size t0)"
proof -
  have "\<not> num_frames < size_t_cast (int i)" if "i < num_frames" for i
  proof -
    have "int i mod 2 ^ 64 \<le> int i" by (rule zmod_le_nonneg_dividend) simp
    then have "size_t_cast (int i) \<le> i" by (simp add: size_t_cast_def)
    then show ?thesis using that by linarith
  qed
  then show ?thesis
    using assms
    by (auto simp: bpm_inv_def BufferPoolManager_new_def replacer_inv_def LRUKReplacer_new_def
        Page_new_def distinct_map inj_on_def)
qed

lemma bpm_inv_FlushPage:
  assumes "bpm_inv s"
  shows "bpm_inv (snd (FlushPage s pid))"
  using assms by (auto simp: FlushPage_def bpm_inv_def split: option.splits)

lemma bpm_inv_UnpinPage:
  assumes inv: "bpm_inv s" and u: "UnpinPage s pid dirty = Inr (b, s')"
  shows "bpm_inv s'"
proof (cases "fmlookup (page_table s) pid")
  case None
  then show ?thesis using inv u by (simp add: UnpinPage_def)
next
  case (Some f)
  show ?thesis
  proof (cases "0 < pin_count (pages s f)")
    case False
    then show ?thesis using inv u Some by (simp add: UnpinPage_def)
  next
    case pin: True
    from bpm_inv_tracked [OF inv Some] obtain n where n: "node_store (replacer s) f = Some n" ..
    have nev: "\<not> is_evictable n" using bpm_inv_pin_sync [OF inv n] pin by simp
    show ?thesis
    proof (cases "pin_count (pages s f) - 1 = 0")
      case True
      from SetEvictable_effect [OF bpm_inv_replacer [OF inv] n, of True] obtain r' where
        r': "SetEvictable (replacer s) f True = Inr r'"
        and ns: "node_store r' = (node_store (replacer s))(f \<mapsto> n\<lparr> is_evictable := True \<rparr>)"
        and sz: "replacer_size r' = replacer_size (replacer s)"
        and inv': "replacer_inv r'"
        by blast
      have s': "s' = s\<lparr> pages := (pages s)(f := (pages s f)
                      \<lparr> pin_count := pin_count (pages s f) - 1,
                        is_dirty := (is_dirty (pages s f) \<or> dirty) \<rparr>),
                   replacer := r' \<rparr>"
        using u Some pin True r' by (auto simp: UnpinPage_def Let_def)
      show ?thesis
        unfolding s' using inv True ns sz inv' n
        by (auto simp: bpm_inv_def)
    next
      case False
      have s': "s' = s\<lparr> pages := (pages s)(f := (pages s f)
                      \<lparr> pin_count := pin_count (pages s f) - 1,
                        is_dirty := (is_dirty (pages s f) \<or> dirty) \<rparr>) \<rparr>"
        using u Some pin False by (auto simp: UnpinPage_def Let_def)
      show ?thesis
        unfolding s' using inv False pin n nev
        by (auto simp: bpm_inv_def)
    qed
  qed
qed

lemma bpm_inv_DeletePage:
  assumes inv: "bpm_inv s" and d: "DeletePage s pid = Inr (b, s')"
  shows "bpm_inv s'"
proof (cases "fmlookup (page_table s) pid")
  case None
  then show ?thesis using inv d by (simp add: DeletePage_def)
next
  case (Some f)
  show ?thesis
  proof (cases "0 < pin_count (pages s f)")
    case True
    then show ?thesis using inv d Some by (simp add: DeletePage_def)
  next
    case False
    then have pin: "pin_count (pages s f) = 0" using bpm_inv_pin_nonneg [OF inv, of f] by simp
    from bpm_inv_tracked [OF inv Some] obtain n where n: "node_store (replacer s) f = Some n" ..
    have ev: "is_evictable n" using bpm_inv_pin_sync [OF inv n] pin by simp
    from Remove_effect [OF bpm_inv_replacer [OF inv] n ev] obtain r' where
      r': "Remove (replacer s) f = Inr r'"
      and ns: "node_store r' = (node_store (replacer s))(f := None)"
      and sz: "replacer_size r' = replacer_size (replacer s)"
      and inv': "replacer_inv r'"
      by blast
    have s': "s' = s\<lparr> replacer := r', free_list := free_list s @ [f],
                       pages := (pages s)(f := (pages s f)
                          \<lparr> data := replicate (length (data (pages s f))) 0,
                            page_id := INVALID_PAGE_ID, pin_count := 0, is_dirty := False \<rparr>),
                       page_table := fmdrop pid (page_table s) \<rparr>"
      using d Some pin r' by (auto simp: DeletePage_def Let_def ResetMemory_def)
    have notfree: "f \<notin> set (free_list s)" using inv n by (auto simp: bpm_inv_def)
    have fsz: "\<not> replacer_size (replacer s) < size_t_cast f"
      using bpm_inv_replacer [OF inv] n by (auto simp: replacer_inv_def)
    have only: "pid' = pid" if "fmlookup (page_table s) pid' = Some f" for pid'
      using bpm_inv_page_id [OF inv that] bpm_inv_page_id [OF inv Some] by simp
    have range: "0 \<le> f" "f < int (pool_size s)" using inv n by (auto simp: bpm_inv_def)
    show ?thesis
      unfolding s' using inv ns sz inv' notfree fsz only range
      by (auto simp: bpm_inv_def)
  qed
qed

lemma Evict_effect:
  assumes inv: "replacer_inv r0" and ev: "Evict r0 = (Some f, r)"
  shows "node_store r = (node_store r0)(f := None)" and "replacer_size r = replacer_size r0"
  using ev by (auto simp: Evict_def split: if_splits prod.splits)

lemma bpm_inv_fields:
  assumes "bpm_inv s"
    and "replacer s' = replacer s" and "page_table s' = page_table s"
    and "free_list s' = free_list s" and "pool_size s' = pool_size s"
    and "\<forall>f. page_id (pages s' f) = page_id (pages s f) \<and>
             pin_count (pages s' f) = pin_count (pages s f)"
  shows "bpm_inv s'"
  using assms unfolding bpm_inv_def by simp

lemma take_frame_inv:
  assumes inv: "bpm_inv s" and t: "take_frame err s = Inr (f, s1)"
  shows "bpm_inv s1 \<and> node_store (replacer s1) f = None \<and>
         \<not> replacer_size (replacer s1) < size_t_cast f \<and> f \<notin> set (free_list s1) \<and>
         0 \<le> f \<and> f < int (pool_size s1)"
proof (cases "free_list s = []")
  case False
  then obtain g gs where fl: "free_list s = g # gs" by (cases "free_list s") auto
  have f: "f = g" and s1: "s1 = s\<lparr> free_list := gs \<rparr>"
    using t fl by (auto simp: take_frame_def)
  show ?thesis
    unfolding s1 f using inv fl by (auto simp: bpm_inv_def)
next
  case True
  obtain victim r where ev0: "Evict (replacer s) = (victim, r)" by (cases "Evict (replacer s)")
  have v: "victim = Some f"
    using t True ev0 by (auto simp: take_frame_def Let_def split: option.splits)
  have ev: "Evict (replacer s) = (Some f, r)" using ev0 v by simp
  have rinv: "replacer_inv (replacer s)" by (rule bpm_inv_replacer [OF inv])
  note E = Evict_Some [OF rinv ev] Evict_effect [OF rinv ev]
  let ?s2 = "if is_dirty (pages s f)
             then snd (FlushPage (s\<lparr> replacer := r \<rparr>) (page_id (pages s f)))
             else s\<lparr> replacer := r \<rparr>"
  have s2: "replacer ?s2 = r" "page_table ?s2 = page_table s" "free_list ?s2 = free_list s"
    "pool_size ?s2 = pool_size s"
    "\<And>g. page_id (pages ?s2 g) = page_id (pages s g)"
    "\<And>g. pin_count (pages ?s2 g) = pin_count (pages s g)"
    by (auto simp: FlushPage_def split: option.splits)
  have s1: "s1 = ?s2\<lparr> page_table := fmdrop (page_id (pages ?s2 f)) (page_table ?s2),
                       pages := (pages ?s2)(f := (ResetMemory (pages ?s2 f))
                          \<lparr> page_id := INVALID_PAGE_ID, pin_count := 0, is_dirty := False \<rparr>) \<rparr>"
    using t True ev by (auto simp: take_frame_def Let_def)
  have only: "pid = page_id (pages s f)" if "fmlookup (page_table s) pid = Some f" for pid
    using bpm_inv_page_id [OF inv that] by simp
  have inv1: "bpm_inv s1"
    unfolding s1 bpm_inv_def
    using inv E s2 only True
    by (auto simp: bpm_inv_def ResetMemory_def)
  have range: "0 \<le> f" "f < int (pool_size s)" using inv E(5) by (auto simp: bpm_inv_def)
  have "node_store (replacer s1) f = None" "\<not> replacer_size (replacer s1) < size_t_cast f"
    "f \<notin> set (free_list s1)" "0 \<le> f" "f < int (pool_size s1)"
    unfolding s1 using E s2 True range by simp_all
  with inv1 show ?thesis by simp
qed

lemma bpm_inv_install:
  assumes inv: "bpm_inv s1" and un: "node_store (replacer s1) f = None"
    and sz: "\<not> replacer_size (replacer s1) < size_t_cast f"
    and nf: "f \<notin> set (free_list s1)"
    and ra: "RecordAccess (replacer s1) f = Inr r1" and se: "SetEvictable r1 f False = Inr r2"
    and fields: "replacer s' = r2" "page_table s' = fmupd pid f (page_table s1)"
      "free_list s' = free_list s1" "pages s' = (pages s1)(f := p')"
      "pool_size s' = pool_size s1"
    and range: "0 \<le> f" "f < int (pool_size s1)"
    and p': "page_id p' = pid" "pin_count p' = 1"
  shows "bpm_inv s'"
proof -
  from RecordAccess_untracked [OF bpm_inv_replacer [OF inv] sz un] ra se
  obtain n' where ns: "node_store r1 = (node_store (replacer s1))(f \<mapsto> n')"
    and nev: "\<not> is_evictable n'" and r2: "r2 = r1"
    and rsz: "replacer_size r1 = replacer_size (replacer s1)" and rinv: "replacer_inv r1"
    by auto
  have nomap: "fmlookup (page_table s1) q \<noteq> Some f" for q
    using bpm_inv_tracked [OF inv, of q f] un by auto
  show ?thesis
    unfolding bpm_inv_def fields r2
    using inv ns nev rsz rinv nomap nf p' range
    by (auto simp: bpm_inv_def)
qed

lemma bpm_inv_NewPage:
  assumes inv: "bpm_inv s" and n: "NewPage s = Inr (res, s')"
  shows "bpm_inv s'"
proof (cases "fcard (fmdom (page_table s)) = pool_size s \<and> Size (replacer s) = 0")
  case True
  then show ?thesis using inv n by (simp add: NewPage_def)
next
  case False
  from n False obtain f s1 where t: "take_frame NoFrameNewPage s = Inr (f, s1)"
    by (auto simp: NewPage_def split: sum.splits)
  note T = take_frame_inv [OF inv t]
  from n False t obtain r1 r2 where ra: "RecordAccess (replacer s1) f = Inr r1"
    and se: "SetEvictable r1 f False = Inr r2"
    by (auto simp: NewPage_def AllocatePage_def Let_def split: sum.splits)
  have s': "s' = s1\<lparr> next_page_id := int32_wrap (next_page_id s1 + 1),
                      page_table := fmupd (next_page_id s1) f (page_table s1),
                      pages := (pages s1)(f := (pages s1 f)
                         \<lparr> page_id := next_page_id s1, pin_count := 1 \<rparr>),
                      replacer := r2 \<rparr>"
    using n False t ra se by (auto simp: NewPage_def AllocatePage_def Let_def)
  show ?thesis
    by (rule bpm_inv_install [OF T [THEN conjunct1] T [THEN conjunct2, THEN conjunct1]
          T [THEN conjunct2, THEN conjunct2, THEN conjunct1]
          T [THEN conjunct2, THEN conjunct2, THEN conjunct2, THEN conjunct1] ra se,
          where pid = "next_page_id s1"
            and p' = "(pages s1 f)\<lparr> page_id := next_page_id s1, pin_count := 1 \<rparr>"])
       (use T in \<open>simp_all add: s'\<close>)
qed

lemma bpm_inv_FetchPage:
  assumes inv: "bpm_inv s" and n: "FetchPage s pid = Inr (res, s')"
  shows "bpm_inv s'"
proof (cases "fmlookup (page_table s) pid")
  case (Some f)
  from bpm_inv_tracked [OF inv Some] obtain nd where nd: "node_store (replacer s) f = Some nd" ..
  from SetEvictable_effect [OF bpm_inv_replacer [OF inv] nd, of False] obtain r' where
    r': "SetEvictable (replacer s) f False = Inr r'"
    and ns: "node_store r' = (node_store (replacer s))(f \<mapsto> nd\<lparr> is_evictable := False \<rparr>)"
    and sz: "replacer_size r' = replacer_size (replacer s)"
    and inv': "replacer_inv r'"
    by blast
  have s': "s' = s\<lparr> pages := (pages s)(f := (pages s f)\<lparr> pin_count := pin_count (pages s f) + 1 \<rparr>),
                     replacer := r' \<rparr>"
    using n Some r' by (auto simp: FetchPage_def Let_def)
  have "pin_count (pages s f) + 1 \<noteq> 0" using bpm_inv_pin_nonneg [OF inv, of f] by simp
  then show ?thesis
    unfolding s' using inv ns sz inv' nd
    by (auto simp: bpm_inv_def)
next
  case None
  show ?thesis
  proof (cases "(fcard (fmdom (page_table s)) = pool_size s \<and> Size (replacer s) = 0) \<or> pid < 0")
    case True
    then show ?thesis using inv n None by (auto simp: FetchPage_def)
  next
    case False
    from n None False obtain f s1 where t: "take_frame NoFrameFetchPage s = Inr (f, s1)"
      by (auto simp: FetchPage_def split: sum.splits)
    note T = take_frame_inv [OF inv t]
    from n None False t obtain r1 r2 where ra: "RecordAccess (replacer s1) f = Inr r1"
      and se: "SetEvictable r1 f False = Inr r2"
      by (auto simp: FetchPage_def Let_def split: sum.splits)
    have s': "s' = s1\<lparr> page_table := fmupd pid f (page_table s1),
                        pages := (pages s1)(f := (pages s1 f)
                           \<lparr> data := ReadPage (disk_manager s1) pid,
                             page_id := pid, pin_count := 1 \<rparr>),
                        replacer := r2 \<rparr>"
      using n None False t ra se by (auto simp: FetchPage_def Let_def)
    show ?thesis
      by (rule bpm_inv_install [OF T [THEN conjunct1] T [THEN conjunct2, THEN conjunct1]
            T [THEN conjunct2, THEN conjunct2, THEN conjunct1]
            T [THEN conjunct2, THEN conjunct2, THEN conjunct2, THEN conjunct1] ra se,
            where pid = pid
              and p' = "(pages s1 f)\<lparr> data := ReadPage (disk_manager s1) pid,
                             page_id := pid, pin_count := 1 \<rparr>"])
         (use T in \<open>simp_all add: s'\<close>)
  qed
qed

section \<open>The example states are reached from the constructors\<close>

lemmas eval_defs =
  NewPage_def take_frame_def AllocatePage_def RecordAccess_def SetEvictable_def
  UnpinPage_def FetchPage_def Evict_def FlushPage_def WritePage_def ReadPage_def
  BufferPoolManager_new_def LRUKReplacer_new_def LRUKNode_new_def Page_new_def Add_def
  CurrentTimestamp_def GetEvictable_def GetDistance_def FirstTime_def SetEvictable_node_def
  ResetMemory_def Size_def size_t_cast_def int32_wrap_def INVALID_PAGE_ID_def write_data_def
  Let_def

lemma small_lists: "map int [0..<2] = [0, 1]" "replicate 4 (0::nat) = [0, 0, 0, 0]"
  by code_simp+

lemma step1:
  "NewPage (BufferPoolManager_new 2 example_disk 2 4 0) =
     Inr (Some (0, 0),
       \<lparr> pool_size = 2,
         pages = (\<lambda>_. Page_new 4)
           (0 := \<lparr> data = [0, 0, 0, 0], page_id = 0, pin_count = 1, is_dirty = False,
                   readers = 0, writer = False \<rparr>),
         page_table = fmupd 0 0 fmempty,
         free_list = [1],
         replacer =
           \<lparr> node_store =
               [0 \<mapsto> \<lparr> history = [1], node_k = 2, fid = 0, is_evictable = False \<rparr>],
             st = [],
             replacer_size = 2, replacer_k = 2, time_base_line = 1 \<rparr>,
         disk_manager = example_disk,
         next_page_id = 1 \<rparr>)"
  by (simp add: eval_defs small_lists fcard_fempty)

lemma example_bpm_reached:
  "(case NewPage (BufferPoolManager_new 2 example_disk 2 4 0) of
      Inr (Some (p0, f0), s1) \<Rightarrow>
        (case NewPage (write_data s1 f0 [1, 2, 3, 4]) of
           Inr (Some (p1, f1), s2) \<Rightarrow>
             UnpinPage (write_data s2 f1 [5, 6, 7, 8]) p1 True = Inr (True, example_bpm)
         | _ \<Rightarrow> False)
    | _ \<Rightarrow> False)"
  apply (simp add: step1)
  apply (simp add: eval_defs small_lists fcard_fempty fcard_finsert_if example_bpm_def
        fun_upd_twist)
  apply (simp add: numeral_2_eq_2)
  done

section \<open>Frames with a record host resident pages\<close>

lemma frames_resident_new:
  "frames_resident (BufferPoolManager_new num_frames disk k page_size t0)"
  by (simp add: frames_resident_def BufferPoolManager_new_def LRUKReplacer_new_def)

lemma frames_resident_victim:
  assumes "frames_resident s" and "bpm_inv s" and "Evict (replacer s) = (Some f, r)"
  shows "fmlookup (page_table s) (page_id (pages s f)) = Some f"
proof -
  from Evict_Some(5) [OF bpm_inv_replacer [OF assms(2)] assms(3)]
  obtain n where "node_store (replacer s) f = Some n" by blast
  with assms(1) show ?thesis by (simp add: frames_resident_def)
qed

lemma frames_resident_FlushPage:
  assumes "frames_resident s"
  shows "frames_resident (snd (FlushPage s pid))"
  using assms by (auto simp: FlushPage_def frames_resident_def split: option.splits)

lemma frames_resident_same:
  assumes "frames_resident s" and "page_table s' = page_table s"
    and "\<forall>g. page_id (pages s' g) = page_id (pages s g)"
    and "\<forall>g. node_store (replacer s') g \<noteq> None \<longrightarrow> node_store (replacer s) g \<noteq> None"
  shows "frames_resident s'"
  unfolding frames_resident_def
proof (intro allI impI)
  fix g m assume "node_store (replacer s') g = Some m"
  then have "node_store (replacer s) g \<noteq> None" using assms(4) by auto
  then have "fmlookup (page_table s) (page_id (pages s g)) = Some g"
    using assms(1) by (auto simp: frames_resident_def)
  then show "fmlookup (page_table s') (page_id (pages s' g)) = Some g"
    using assms(2,3) by simp
qed

lemma frames_resident_UnpinPage:
  assumes res: "frames_resident s" and inv: "bpm_inv s"
    and u: "UnpinPage s pid dirty = Inr (b, s')"
  shows "frames_resident s'"
proof (cases "fmlookup (page_table s) pid")
  case None
  then show ?thesis using res u by (simp add: UnpinPage_def)
next
  case (Some f)
  show ?thesis
  proof (cases "0 < pin_count (pages s f)")
    case False
    then show ?thesis using res u Some by (simp add: UnpinPage_def)
  next
    case pin: True
    from bpm_inv_tracked [OF inv Some] obtain n where n: "node_store (replacer s) f = Some n" ..
    show ?thesis
    proof (cases "pin_count (pages s f) - 1 = 0")
      case True
      from SetEvictable_effect [OF bpm_inv_replacer [OF inv] n, of True] obtain r' where
        r': "SetEvictable (replacer s) f True = Inr r'"
        and ns: "node_store r' = (node_store (replacer s))(f \<mapsto> n\<lparr> is_evictable := True \<rparr>)"
        by blast
      have s': "s' = s\<lparr> pages := (pages s)(f := (pages s f)
                      \<lparr> pin_count := pin_count (pages s f) - 1,
                        is_dirty := (is_dirty (pages s f) \<or> dirty) \<rparr>),
                   replacer := r' \<rparr>"
        using u Some pin True r' by (auto simp: UnpinPage_def Let_def)
      show ?thesis
        by (rule frames_resident_same [OF res]) (use n in \<open>auto simp: s' ns\<close>)
    next
      case False
      have s': "s' = s\<lparr> pages := (pages s)(f := (pages s f)
                      \<lparr> pin_count := pin_count (pages s f) - 1,
                        is_dirty := (is_dirty (pages s f) \<or> dirty) \<rparr>) \<rparr>"
        using u Some pin False by (auto simp: UnpinPage_def Let_def)
      show ?thesis
        by (rule frames_resident_same [OF res]) (auto simp: s')
    qed
  qed
qed

lemma frames_resident_DeletePage:
  assumes res: "frames_resident s" and inv: "bpm_inv s"
    and d: "DeletePage s pid = Inr (b, s')"
  shows "frames_resident s'"
proof (cases "fmlookup (page_table s) pid")
  case None
  then show ?thesis using res d by (simp add: DeletePage_def)
next
  case (Some f)
  show ?thesis
  proof (cases "0 < pin_count (pages s f)")
    case True
    then show ?thesis using res d Some by (simp add: DeletePage_def)
  next
    case False
    then have pin: "pin_count (pages s f) = 0" using bpm_inv_pin_nonneg [OF inv, of f] by simp
    from bpm_inv_tracked [OF inv Some] obtain n where n: "node_store (replacer s) f = Some n" ..
    have ev: "is_evictable n" using bpm_inv_pin_sync [OF inv n] pin by simp
    from Remove_effect [OF bpm_inv_replacer [OF inv] n ev] obtain r' where
      r': "Remove (replacer s) f = Inr r'"
      and ns: "node_store r' = (node_store (replacer s))(f := None)"
      by blast
    have s': "s' = s\<lparr> replacer := r', free_list := free_list s @ [f],
                       pages := (pages s)(f := (pages s f)
                          \<lparr> data := replicate (length (data (pages s f))) 0,
                            page_id := INVALID_PAGE_ID, pin_count := 0, is_dirty := False \<rparr>),
                       page_table := fmdrop pid (page_table s) \<rparr>"
      using d Some pin r' by (auto simp: DeletePage_def Let_def ResetMemory_def)
    show ?thesis
      unfolding frames_resident_def
    proof (intro allI impI)
      fix g m assume "node_store (replacer s') g = Some m"
      then have g: "g \<noteq> f" "node_store (replacer s) g = Some m"
        by (auto simp: s' ns split: if_splits)
      have l: "fmlookup (page_table s) (page_id (pages s g)) = Some g"
        using res g(2) by (simp add: frames_resident_def)
      then have "page_id (pages s g) \<noteq> pid" using Some g(1) by auto
      then show "fmlookup (page_table s') (page_id (pages s' g)) = Some g"
        using g(1) l by (simp add: s')
    qed
  qed
qed

lemma take_frame_resident:
  assumes res: "frames_resident s" and inv: "bpm_inv s"
    and t: "take_frame err s = Inr (f, s1)"
  shows "frames_resident s1 \<and>
         (\<forall>pid. fmlookup (page_table s) pid = None \<longrightarrow> fmlookup (page_table s1) pid = None)"
proof (cases "free_list s = []")
  case False
  then have "s1 = s\<lparr> free_list := tl (free_list s) \<rparr>"
    using t by (auto simp: take_frame_def)
  then show ?thesis using res by (simp add: frames_resident_def)
next
  case True
  obtain victim r where ev0: "Evict (replacer s) = (victim, r)" by (cases "Evict (replacer s)")
  have v: "victim = Some f"
    using t True ev0 by (auto simp: take_frame_def Let_def split: option.splits)
  have ev: "Evict (replacer s) = (Some f, r)" using ev0 v by simp
  have rinv: "replacer_inv (replacer s)" by (rule bpm_inv_replacer [OF inv])
  note E = Evict_Some [OF rinv ev] Evict_effect [OF rinv ev]
  let ?s2 = "if is_dirty (pages s f)
             then snd (FlushPage (s\<lparr> replacer := r \<rparr>) (page_id (pages s f)))
             else s\<lparr> replacer := r \<rparr>"
  have s2: "replacer ?s2 = r" "page_table ?s2 = page_table s"
    "\<And>g. page_id (pages ?s2 g) = page_id (pages s g)"
    by (auto simp: FlushPage_def split: option.splits)
  have s1: "s1 = ?s2\<lparr> page_table := fmdrop (page_id (pages ?s2 f)) (page_table ?s2),
                       pages := (pages ?s2)(f := (ResetMemory (pages ?s2 f))
                          \<lparr> page_id := INVALID_PAGE_ID, pin_count := 0, is_dirty := False \<rparr>) \<rparr>"
    using t True ev by (auto simp: take_frame_def Let_def)
  have vres: "fmlookup (page_table s) (page_id (pages s f)) = Some f"
    by (rule frames_resident_victim [OF res inv ev])
  have a: "frames_resident s1"
    unfolding frames_resident_def
  proof (intro allI impI)
    fix g m assume "node_store (replacer s1) g = Some m"
    then have g: "g \<noteq> f" "node_store (replacer s) g = Some m"
      by (auto simp: s1 s2 E(6) split: if_splits)
    have l: "fmlookup (page_table s) (page_id (pages s g)) = Some g"
      using res g(2) by (simp add: frames_resident_def)
    then have "page_id (pages s g) \<noteq> page_id (pages s f)" using vres g(1) by auto
    then show "fmlookup (page_table s1) (page_id (pages s1 g)) = Some g"
      using g(1) l by (simp add: s1 s2)
  qed
  have b: "\<forall>pid. fmlookup (page_table s) pid = None \<longrightarrow> fmlookup (page_table s1) pid = None"
    by (simp add: s1 s2)
  from a b show ?thesis ..
qed

lemma frames_resident_install:
  assumes res: "frames_resident s1" and inv: "bpm_inv s1"
    and un: "node_store (replacer s1) f = None"
    and sz: "\<not> replacer_size (replacer s1) < size_t_cast f"
    and fresh: "fmlookup (page_table s1) pid = None"
    and ra: "RecordAccess (replacer s1) f = Inr r1" and se: "SetEvictable r1 f False = Inr r2"
    and fields: "replacer s' = r2" "page_table s' = fmupd pid f (page_table s1)"
      "pages s' = (pages s1)(f := p')"
    and p': "page_id p' = pid"
  shows "frames_resident s'"
proof -
  from RecordAccess_untracked [OF bpm_inv_replacer [OF inv] sz un] ra se
  obtain n' where ns: "node_store r1 = (node_store (replacer s1))(f \<mapsto> n')" and r2: "r2 = r1"
    by auto
  show ?thesis
    unfolding frames_resident_def
  proof (intro allI impI)
    fix g m assume gm: "node_store (replacer s') g = Some m"
    show "fmlookup (page_table s') (page_id (pages s' g)) = Some g"
    proof (cases "g = f")
      case True
      then show ?thesis using p' by (simp add: fields)
    next
      case False
      then have g: "node_store (replacer s1) g = Some m" using gm by (simp add: fields r2 ns)
      have l: "fmlookup (page_table s1) (page_id (pages s1 g)) = Some g"
        using res g by (simp add: frames_resident_def)
      then have "page_id (pages s1 g) \<noteq> pid" using fresh by auto
      then show ?thesis using False l by (simp add: fields)
    qed
  qed
qed

lemma frames_resident_NewPage:
  assumes res: "frames_resident s" and inv: "bpm_inv s"
    and n: "NewPage s = Inr (result, s')"
    and fresh: "fmlookup (page_table s) (next_page_id s) = None"
  shows "frames_resident s'"
proof (cases "fcard (fmdom (page_table s)) = pool_size s \<and> Size (replacer s) = 0")
  case True
  then show ?thesis using res n by (simp add: NewPage_def)
next
  case False
  from n False obtain f s1 where t: "take_frame NoFrameNewPage s = Inr (f, s1)"
    by (auto simp: NewPage_def split: sum.splits)
  note T = take_frame_inv [OF inv t]
  note R = take_frame_resident [OF res inv t]
  have npi: "next_page_id s1 = next_page_id s"
    using t by (auto simp: take_frame_def FlushPage_def Let_def
        split: if_splits prod.splits option.splits)
  from n False t obtain r1 r2 where ra: "RecordAccess (replacer s1) f = Inr r1"
    and se: "SetEvictable r1 f False = Inr r2"
    by (auto simp: NewPage_def AllocatePage_def Let_def split: sum.splits)
  have s': "s' = s1\<lparr> next_page_id := int32_wrap (next_page_id s1 + 1),
                      page_table := fmupd (next_page_id s1) f (page_table s1),
                      pages := (pages s1)(f := (pages s1 f)
                         \<lparr> page_id := next_page_id s1, pin_count := 1 \<rparr>),
                      replacer := r2 \<rparr>"
    using n False t ra se by (auto simp: NewPage_def AllocatePage_def Let_def)
  have fresh1: "fmlookup (page_table s1) (next_page_id s1) = None"
    using R fresh npi by simp
  show ?thesis
    by (rule frames_resident_install [OF R [THEN conjunct1] T [THEN conjunct1]
          T [THEN conjunct2, THEN conjunct1]
          T [THEN conjunct2, THEN conjunct2, THEN conjunct1] fresh1 ra se,
          where p' = "(pages s1 f)\<lparr> page_id := next_page_id s1, pin_count := 1 \<rparr>"])
       (simp_all add: s')
qed

lemma frames_resident_FetchPage:
  assumes res: "frames_resident s" and inv: "bpm_inv s"
    and n: "FetchPage s pid = Inr (result, s')"
  shows "frames_resident s'"
proof (cases "fmlookup (page_table s) pid")
  case (Some f)
  from bpm_inv_tracked [OF inv Some] obtain nd where nd: "node_store (replacer s) f = Some nd" ..
  from SetEvictable_effect [OF bpm_inv_replacer [OF inv] nd, of False] obtain r' where
    r': "SetEvictable (replacer s) f False = Inr r'"
    and ns: "node_store r' = (node_store (replacer s))(f \<mapsto> nd\<lparr> is_evictable := False \<rparr>)"
    by blast
  have s': "s' = s\<lparr> pages := (pages s)(f := (pages s f)\<lparr> pin_count := pin_count (pages s f) + 1 \<rparr>),
                     replacer := r' \<rparr>"
    using n Some r' by (auto simp: FetchPage_def Let_def)
  show ?thesis
    unfolding s' frames_resident_def using res ns nd
    by (auto simp: frames_resident_def)
next
  case None
  show ?thesis
  proof (cases "(fcard (fmdom (page_table s)) = pool_size s \<and> Size (replacer s) = 0) \<or> pid < 0")
    case True
    then show ?thesis using res n None by (auto simp: FetchPage_def)
  next
    case False
    from n None False obtain f s1 where t: "take_frame NoFrameFetchPage s = Inr (f, s1)"
      by (auto simp: FetchPage_def split: sum.splits)
    note T = take_frame_inv [OF inv t]
    note R = take_frame_resident [OF res inv t]
    from n None False t obtain r1 r2 where ra: "RecordAccess (replacer s1) f = Inr r1"
      and se: "SetEvictable r1 f False = Inr r2"
      by (auto simp: FetchPage_def Let_def split: sum.splits)
    have s': "s' = s1\<lparr> page_table := fmupd pid f (page_table s1),
                        pages := (pages s1)(f := (pages s1 f)
                           \<lparr> data := ReadPage (disk_manager s1) pid,
                             page_id := pid, pin_count := 1 \<rparr>),
                        replacer := r2 \<rparr>"
      using n None False t ra se by (auto simp: FetchPage_def Let_def)
    have fresh1: "fmlookup (page_table s1) pid = None" using R None by simp
    show ?thesis
      by (rule frames_resident_install [OF R [THEN conjunct1] T [THEN conjunct1]
            T [THEN conjunct2, THEN conjunct1]
            T [THEN conjunct2, THEN conjunct2, THEN conjunct1] fresh1 ra se,
            where p' = "(pages s1 f)\<lparr> data := ReadPage (disk_manager s1) pid,
                             page_id := pid, pin_count := 1 \<rparr>"])
         (simp_all add: s')
  qed
qed

section \<open>A page id allocated while it is resident\<close>

text \<open>
  \<open>AllocatePage\<close> counts from 0 and \<open>FetchPage\<close> accepts every page id that is not
  negative. On a new pool of three frames, \<open>FetchPage(1)\<close> puts page 1 in frame 0;
  the second \<open>NewPage\<close> after it allocates the id 1 again and maps it to frame 2.
\<close>

lemma small_lists3: "map int [0..<3] = [0, 1, 2]"
  by code_simp

lemma fetch1:
  "FetchPage (BufferPoolManager_new 3 example_disk 2 4 0) 1 =
     Inr (Some 0,
       \<lparr> pool_size = 3,
         pages = (\<lambda>_. Page_new 4)
           (0 := \<lparr> data = [0, 0, 0, 0], page_id = 1, pin_count = 1, is_dirty = False,
                   readers = 0, writer = False \<rparr>),
         page_table = fmupd 1 0 fmempty,
         free_list = [1, 2],
         replacer =
           \<lparr> node_store =
               [0 \<mapsto> \<lparr> history = [1], node_k = 2, fid = 0, is_evictable = False \<rparr>],
             st = [],
             replacer_size = 3, replacer_k = 2, time_base_line = 1 \<rparr>,
         disk_manager = example_disk,
         next_page_id = 0 \<rparr>)"
  by (simp add: eval_defs small_lists small_lists3 fcard_fempty example_disk_def)

text \<open>
  Claim C4 says that a page is never discarded while dirty without its bytes being
  written first. On a new pool of three frames: \<open>FetchPage(1)\<close> returns frame 0; the
  caller writes the bytes 1,1,1,1 and calls \<open>UnpinPage(1, true)\<close>; \<open>NewPage\<close> returns
  page 0 in frame 1; \<open>NewPage\<close> returns page 1 in frame 2, where the caller writes
  2,2,2,2. Frame 0 still has page id 1, its bytes and its dirty flag; the free list is
  empty and frame 0 is the replacer's victim. The next \<open>NewPage\<close> evicts it and
  returns it: its call \<open>FlushPage(1)\<close> has written the bytes of frame 2, to which the
  page table maps page 1, so the one write the disk has received is 2,2,2,2, and the
  bytes 1,1,1,1 of frame 0 are zeroed without having been written. \<open>FetchPage(9)\<close> in
  place of that \<open>NewPage\<close> evicts frame 0 in the same way, with the same single write.
\<close>

theorem dirty_victim_lost:
  "(case FetchPage (BufferPoolManager_new 3 example_disk 2 4 0) 1 of
      Inr (Some f0, s1) \<Rightarrow>
        (case UnpinPage (write_data s1 f0 [1, 1, 1, 1]) 1 True of
           Inr (b, s2) \<Rightarrow>
             (case NewPage s2 of
                Inr (Some (p1, f1), s3) \<Rightarrow>
                  (case NewPage s3 of
                     Inr (Some (p2, f2), s4) \<Rightarrow>
                       (case NewPage (write_data s4 f2 [2, 2, 2, 2]) of
                          Inr (Some (p3, f3), s5) \<Rightarrow>
                            f0 = 0 \<and> b \<and> (p1, f1) = (0, 1) \<and> (p2, f2) = (1, 2) \<and>
                            page_id (pages s4 0) = 1 \<and> is_dirty (pages s4 0) \<and>
                            data (pages s4 0) = [1, 1, 1, 1] \<and>
                            free_list s4 = [] \<and>
                            fst (Evict (replacer s4)) = Some 0 \<and>
                            (p3, f3) = (2, 0) \<and>
                            write_log (disk_manager s5) = [(1, [2, 2, 2, 2])] \<and>
                            disk_pages (disk_manager s5) 1 = [2, 2, 2, 2] \<and>
                            data (pages s5 0) = [0, 0, 0, 0] \<and>
                            (case FetchPage (write_data s4 f2 [2, 2, 2, 2]) 9 of
                               Inr (Some f4, s6) \<Rightarrow>
                                 f4 = 0 \<and>
                                 write_log (disk_manager s6) = [(1, [2, 2, 2, 2])] \<and>
                                 page_id (pages s6 0) = 9
                             | _ \<Rightarrow> False)
                        | _ \<Rightarrow> False)
                   | _ \<Rightarrow> False)
              | _ \<Rightarrow> False)
         | _ \<Rightarrow> False)
    | _ \<Rightarrow> False)"
  apply (simp add: fetch1)
  apply (simp add: eval_defs small_lists fcard_fempty fcard_finsert_if example_disk_def
        fun_upd_twist set_erase_def)
  done

text \<open>
  Claim C8 says that the first drop of a guard holding a frame decrements the pin
  count of its page by exactly one. On a new pool of three frames: \<open>FetchPage(1)\<close>
  returns frame 0, which a \<open>BasicPageGuard\<close> at address 0 holds; \<open>NewPage\<close> returns
  page 0 in frame 1 and \<open>NewPage\<close> returns page 1 in frame 2. Frames 0 and 2 both have
  page id 1 and pin count 1. \<open>Drop\<close> on the guard calls \<open>UnpinPage(1, false)\<close>, which
  unpins the frame the page table maps page 1 to: afterwards the pin count of frame 2
  is 0, the pin count of frame 0, which the guard held, is still 1, and the guard
  holds nothing.
\<close>

theorem Drop_unpins_other_frame:
  "(case FetchPage (BufferPoolManager_new 3 example_disk 2 4 0) 1 of
      Inr (Some f0, s1) \<Rightarrow>
        (case NewPage s1 of
           Inr (Some (p1, f1), s2) \<Rightarrow>
             (case NewPage s2 of
                Inr (Some (p2, f2), s3) \<Rightarrow>
                  (case BasicPageGuard_Drop 0
                          \<lparr> bpm = s3,
                            guards = (\<lambda>_. empty_guard)
                              (0 := \<lparr> guard_bpm = True, guard_page = Some f0,
                                      guard_is_dirty = False \<rparr>) \<rparr> of
                     Inr sys1 \<Rightarrow>
                       f0 = 0 \<and> (p1, f1) = (0, 1) \<and> (p2, f2) = (1, 2) \<and>
                       page_id (pages s3 0) = 1 \<and> page_id (pages s3 2) = 1 \<and>
                       pin_count (pages s3 0) = 1 \<and> pin_count (pages s3 2) = 1 \<and>
                       pin_count (pages (bpm sys1) 0) = 1 \<and>
                       pin_count (pages (bpm sys1) 2) = 0 \<and>
                       guard_page (guards sys1 0) = None
                   | _ \<Rightarrow> False)
              | _ \<Rightarrow> False)
         | _ \<Rightarrow> False)
    | _ \<Rightarrow> False)"
  apply (simp add: fetch1)
  apply (simp add: eval_defs small_lists fcard_fempty fcard_finsert_if example_disk_def
        fun_upd_twist set_erase_def BasicPageGuard_Drop_def CLear_def empty_guard_def)
  done

end
